theory Spec2Isabelle
  imports Complex_Main "HOL-Library.Log_Nat"
begin

section \<open>Numbers, timestamps and strings\<close>

text \<open>
  The program is TypeScript. A \<^verbatim>\<open>Date\<close> and the result of \<^verbatim>\<open>Date.now()\<close> are an
  \<^typ>\<open>int\<close>, the milliseconds since the epoch; a day-of-week, an hour and a minute are
  \<^typ>\<open>int\<close>s as well. A \<^verbatim>\<open>number\<close> that holds a percentage, a poll interval or a
  quotient is a \<^typ>\<open>real\<close>. The values NaN and Infinity are not part of the model.
  In \<^verbatim>\<open>calculateWeekProgress\<close> each arithmetic operation on numbers that are not
  integers is followed by the rounding of binary64 (\<open>binary64\<close> below), which decides
  the whole percent where the exact quotient is a tie. Elsewhere the arithmetic is
  exact.
\<close>

text \<open>\<^verbatim>\<open>Math.round\<close>: the nearest integer, a tie going towards plus infinity.\<close>

definition Math_round :: "real \<Rightarrow> int" where
  "Math_round x = \<lfloor>x + 1 / 2\<rfloor>"

text \<open>
  The rounding of IEEE 754 binary64, the format of a \<^verbatim>\<open>number\<close>: a real is rounded to
  the nearest multiple of \<open>2\<close> to the power \<open>e - 52\<close>, where \<open>e\<close> is its binary
  exponent, a tie going to the even multiple. The exponent is not bounded: neither
  overflow nor subnormal numbers are modelled.
\<close>

text \<open>The binary exponent of a positive real \<open>y\<close>: the \<open>e\<close> with \<open>2 powi e \<le> y < 2 powi (e + 1)\<close>.\<close>

definition exponent_of :: "real \<Rightarrow> int" where
  "exponent_of y = (if 1 \<le> y then bitlen \<lfloor>y\<rfloor> - 1 else - bitlen (\<lceil>1 / y\<rceil> - 1))"

definition round_ties_even :: "real \<Rightarrow> int" where
  "round_ties_even m =
     (let f = \<lfloor>m\<rfloor>; r = m - real_of_int f
      in if r < 1 / 2 then f else if 1 / 2 < r then f + 1 else if even f then f else f + 1)"

definition binary64 :: "real \<Rightarrow> real" where
  "binary64 x =
     (if x = 0 then 0
      else (let ulp = 2 powi (exponent_of \<bar>x\<bar> - 52)
            in real_of_int (round_ties_even (x / ulp)) * ulp))"

text \<open>\<^verbatim>\<open>Math.floor\<close>.\<close>

definition Math_floor :: "real \<Rightarrow> int" where
  "Math_floor x = \<lfloor>x\<rfloor>"

text \<open>
  A value read from parsed JSON, or an optional argument: the key is missing
  (\<^verbatim>\<open>undefined\<close>), it is \<^verbatim>\<open>null\<close>, or it holds a value.
\<close>

datatype 'a js = Undefined | Null | Val 'a

text \<open>\<^verbatim>\<open>x ?? d\<close>: the default replaces \<^verbatim>\<open>undefined\<close> and \<^verbatim>\<open>null\<close> only.\<close>

fun nullish :: "'a js \<Rightarrow> 'a \<Rightarrow> 'a" where
  "nullish (Val v) d = v"
| "nullish Undefined d = d"
| "nullish Null d = d"

section \<open>The quota client: \<^verbatim>\<open>src/utils/oauth.ts\<close>\<close>

record UsageData =
  resetAt :: int
  percentUsed :: real
  isOverLimit :: bool

record ApiUsageBlock =
  resets_at :: "string js"
  utilization :: "real js"

record ApiResponse =
  five_hour :: "ApiUsageBlock js"
  seven_day :: "ApiUsageBlock js"
  seven_day_opus :: "ApiUsageBlock js"
  seven_day_sonnet :: "ApiUsageBlock js"

record OAuthUsageResponse =
  fiveHour :: "UsageData option"
  sevenDay :: "UsageData option"
  sevenDayOpus :: "UsageData option"
  sevenDaySonnet :: "UsageData option"
  raw :: ApiResponse

text \<open>
  \<^verbatim>\<open>parseUsageBlock\<close>, the closure inside \<^verbatim>\<open>fetchUsageFromAPI\<close>. \<^verbatim>\<open>!block\<close> holds for
  a missing and for a null block. \<^verbatim>\<open>block.resets_at ? new Date(block.resets_at) : new Date()\<close>
  tests the truthiness of a string, so the empty string counts as absent too. The
  parser of \<^verbatim>\<open>new Date(string)\<close> is the parameter \<open>parse\<close>, and \<open>now\<close> is what
  \<^verbatim>\<open>new Date()\<close> reads from the clock.
\<close>

fun truthy_string :: "string js \<Rightarrow> bool" where
  "truthy_string (Val s) = (s \<noteq> [])"
| "truthy_string Undefined = False"
| "truthy_string Null = False"

fun parseUsageBlock :: "(string \<Rightarrow> int) \<Rightarrow> int \<Rightarrow> ApiUsageBlock js \<Rightarrow> UsageData option" where
  "parseUsageBlock parse now (Val block) =
     Some \<lparr> resetAt = (case resets_at block of
                          Val s \<Rightarrow> if truthy_string (Val s) then parse s else now
                        | Undefined \<Rightarrow> now
                        | Null \<Rightarrow> now),
            percentUsed = nullish (utilization block) 0,
            isOverLimit = (nullish (utilization block) 0 \<ge> 100) \<rparr>"
| "parseUsageBlock parse now Undefined = None"
| "parseUsageBlock parse now Null = None"

text \<open>
  What the network gives back to \<^verbatim>\<open>fetch\<close>: the call throws, or it answers with
  \<^verbatim>\<open>response.ok\<close> and a body whose \<^verbatim>\<open>json()\<close> throws or yields the parsed object.
  A body that parses to something whose keys cannot be read (\<^verbatim>\<open>null\<close>) makes the
  function throw at the first key, inside the same \<^verbatim>\<open>try\<close>: \<open>JsonThrows\<close> covers it.
\<close>

datatype json_body = JsonThrows | Json ApiResponse

datatype http_response = FetchThrows | Response bool json_body

text \<open>\<^verbatim>\<open>x ?? undefined\<close>, as applied to the two per-model keys.\<close>

fun or_undefined :: "'a js \<Rightarrow> 'a js" where
  "or_undefined (Val v) = Val v"
| "or_undefined Undefined = Undefined"
| "or_undefined Null = Undefined"

text \<open>
  \<^verbatim>\<open>fetchUsageFromAPI(token)\<close>. The parameter \<open>net\<close> is the remote endpoint, from the
  bearer token to the answer; \<open>clk k\<close> is the clock as the \<open>k\<close>-th call of
  \<^verbatim>\<open>parseUsageBlock\<close> reads it. Every failure is caught and becomes \<^verbatim>\<open>null\<close>.
\<close>

fun fetchUsageFromAPI ::
  "(string \<Rightarrow> int) \<Rightarrow> (nat \<Rightarrow> int) \<Rightarrow> (string \<Rightarrow> http_response) \<Rightarrow> string
    \<Rightarrow> OAuthUsageResponse option" where
  "fetchUsageFromAPI parse clk net token =
     (case net token of
        FetchThrows \<Rightarrow> None
      | Response ok body \<Rightarrow>
          if \<not> ok then None
          else (case body of
                  JsonThrows \<Rightarrow> None
                | Json data \<Rightarrow>
                    Some \<lparr> fiveHour = parseUsageBlock parse (clk 0) (five_hour data),
                           sevenDay = parseUsageBlock parse (clk 1) (seven_day data),
                           sevenDayOpus =
                             parseUsageBlock parse (clk 2) (or_undefined (seven_day_opus data)),
                           sevenDaySonnet =
                             parseUsageBlock parse (clk 3) (or_undefined (seven_day_sonnet data)),
                           raw = data \<rparr>))"

text \<open>
  The four top-level keys of the body, each with the window of the result it is
  normalized into and the index of its clock reading.
\<close>

definition usage_keys ::
  "((ApiResponse \<Rightarrow> ApiUsageBlock js) \<times> (OAuthUsageResponse \<Rightarrow> UsageData option) \<times> nat) list" where
  "usage_keys =
     [(five_hour, fiveHour, 0), (seven_day, sevenDay, 1),
      (seven_day_opus, sevenDayOpus, 2), (seven_day_sonnet, sevenDaySonnet, 3)]"

section \<open>The usage cache and the trend tracker\<close>

text \<open>
  The four module-level variables \<^verbatim>\<open>cachedUsage\<close>, \<^verbatim>\<open>previousUsage\<close>,
  \<^verbatim>\<open>cacheTimestamp\<close> and \<^verbatim>\<open>cachedToken\<close> are one record, passed to every operation
  and returned updated.
\<close>

record cache =
  cachedUsage :: "OAuthUsageResponse option"
  previousUsage :: "OAuthUsageResponse option"
  cacheTimestamp :: int
  cachedToken :: "string option"

definition initial_cache :: cache where
  "initial_cache =
     \<lparr> cachedUsage = None, previousUsage = None, cacheTimestamp = 0, cachedToken = None \<rparr>"

definition clearUsageCache :: "cache \<Rightarrow> cache" where
  "clearUsageCache s =
     s\<lparr> cachedUsage := None, previousUsage := None, cacheTimestamp := 0, cachedToken := None \<rparr>"

datatype TrendDirection = Up | Down | Same

record TrendInfo =
  fiveHourTrend :: "TrendDirection option"
  sevenDayTrend :: "TrendDirection option"
  sevenDayOpusTrend :: "TrendDirection option"
  sevenDaySonnetTrend :: "TrendDirection option"

fun compareTrend :: "UsageData option \<Rightarrow> UsageData option \<Rightarrow> TrendDirection option" where
  "compareTrend (Some current) (Some previous) =
     (let diff = percentUsed current - percentUsed previous
      in if diff > 0.5 then Some Up
         else if diff < - 0.5 then Some Down
         else Some Same)"
| "compareTrend None previous = None"
| "compareTrend current None = None"

definition getUsageTrend :: "cache \<Rightarrow> TrendInfo" where
  "getUsageTrend s =
     (case (cachedUsage s, previousUsage s) of
        (Some cur, Some prev) \<Rightarrow>
          \<lparr> fiveHourTrend = compareTrend (fiveHour cur) (fiveHour prev),
            sevenDayTrend = compareTrend (sevenDay cur) (sevenDay prev),
            sevenDayOpusTrend = compareTrend (sevenDayOpus cur) (sevenDayOpus prev),
            sevenDaySonnetTrend = compareTrend (sevenDaySonnet cur) (sevenDaySonnet prev) \<rparr>
      | _ \<Rightarrow>
          \<lparr> fiveHourTrend = None, sevenDayTrend = None,
            sevenDayOpusTrend = None, sevenDaySonnetTrend = None \<rparr>)"

text \<open>
  The four usage dimensions the function compares: the window of a snapshot, and the
  field of the result its direction is assigned to.
\<close>

definition trend_dimensions ::
  "((OAuthUsageResponse \<Rightarrow> UsageData option) \<times> (TrendInfo \<Rightarrow> TrendDirection option)) list" where
  "trend_dimensions =
     [(fiveHour, fiveHourTrend), (sevenDay, sevenDayTrend),
      (sevenDayOpus, sevenDayOpusTrend), (sevenDaySonnet, sevenDaySonnetTrend)]"

text \<open>
  What a call of \<^verbatim>\<open>getRealtimeUsage\<close> does to the outside world, in order: it runs the
  credential resolver \<^verbatim>\<open>getOAuthToken\<close>, it calls the quota endpoint with a token.
\<close>

datatype event = ResolveToken | FetchUsage string

text \<open>\<^verbatim>\<open>!cachedToken\<close>: a token is missing when it is \<^verbatim>\<open>null\<close> or the empty string.\<close>

fun no_token :: "string option \<Rightarrow> bool" where
  "no_token None = True"
| "no_token (Some t) = (t = [])"

text \<open>
  The test \<^verbatim>\<open>cachedUsage && cacheAgeMs < pollIntervalMs\<close> of \<^verbatim>\<open>getRealtimeUsage\<close>, with
  \<open>now\<close> the reading of \<^verbatim>\<open>Date.now()\<close>.
\<close>

definition cache_fresh :: "real \<Rightarrow> int \<Rightarrow> cache \<Rightarrow> bool" where
  "cache_fresh pollIntervalMinutes now s =
     (let cacheAgeMs = now - cacheTimestamp s;
          pollIntervalMs = pollIntervalMinutes * 60 * 1000
      in cachedUsage s \<noteq> None \<and> real_of_int cacheAgeMs < pollIntervalMs)"

text \<open>
  \<^verbatim>\<open>getRealtimeUsage(pollIntervalMinutes)\<close>. \<open>now\<close> is the reading of \<^verbatim>\<open>Date.now()\<close>,
  \<open>resolved\<close> is what \<^verbatim>\<open>getOAuthToken()\<close> answers if it is called, \<open>fetch\<close> is what
  \<^verbatim>\<open>fetchUsageFromAPI\<close> answers for a token. The result is the returned value, the
  events of the call, and the cache after it.
\<close>

definition getRealtimeUsage ::
  "real \<Rightarrow> int \<Rightarrow> string option \<Rightarrow> (string \<Rightarrow> OAuthUsageResponse option) \<Rightarrow> cache
    \<Rightarrow> OAuthUsageResponse option \<times> event list \<times> cache" where
  "getRealtimeUsage pollIntervalMinutes now resolved fetch s =
     (if cache_fresh pollIntervalMinutes now s then (cachedUsage s, [], s)
      else
        let (ev, s1) = (if no_token (cachedToken s)
                        then ([ResolveToken], s\<lparr> cachedToken := resolved \<rparr>)
                        else ([], s))
        in (case cachedToken s1 of
              None \<Rightarrow> (None, ev, s1)
            | Some token \<Rightarrow>
                if token = [] then (None, ev, s1)
                else (case fetch token of
                        Some usage \<Rightarrow>
                          (Some usage, ev @ [FetchUsage token],
                           s1\<lparr> previousUsage := cachedUsage s1,
                               cachedUsage := Some usage,
                               cacheTimestamp := now \<rparr>)
                      | None \<Rightarrow>
                          (None, ev @ [FetchUsage token], s1\<lparr> cachedToken := None \<rparr>))))"

text \<open>The three components of what a call yields.\<close>

definition returned :: "'a \<times> event list \<times> cache \<Rightarrow> 'a" where
  "returned x = fst x"

definition events :: "'a \<times> event list \<times> cache \<Rightarrow> event list" where
  "events x = fst (snd x)"

definition cache_after :: "'a \<times> event list \<times> cache \<Rightarrow> cache" where
  "cache_after x = snd (snd x)"

text \<open>The calls of the quota endpoint among the events of a call.\<close>

fun is_fetch :: "event \<Rightarrow> bool" where
  "is_fetch (FetchUsage token) = True"
| "is_fetch ResolveToken = False"

definition fetch_count :: "event list \<Rightarrow> nat" where
  "fetch_count ev = length (filter is_fetch ev)"

text \<open>A call made a fetch that succeeded: it called the endpoint and has a snapshot to return.\<close>

definition fetch_succeeded ::
  "real \<Rightarrow> int \<Rightarrow> string option \<Rightarrow> (string \<Rightarrow> OAuthUsageResponse option) \<Rightarrow> cache \<Rightarrow> bool" where
  "fetch_succeeded pollIntervalMinutes now resolved fetch s =
     (case getRealtimeUsage pollIntervalMinutes now resolved fetch s of
        (res, ev, s') \<Rightarrow> res \<noteq> None \<and> fetch_count ev > 0)"

text \<open>
  The token a call that misses the cache goes to the endpoint with: the cached one, or
  the resolver's answer when none is cached.
\<close>

definition token_in_use :: "string option \<Rightarrow> cache \<Rightarrow> string option" where
  "token_in_use resolved s = (if no_token (cachedToken s) then resolved else cachedToken s)"

subsection \<open>Histories of the cache\<close>

text \<open>
  The operations of the module on its cache. A history is a list of operations, the
  latest first; \<open>run\<close> is the cache it leaves, starting from the module's initial values.
\<close>

datatype op =
  GetUsage real int "string option" "string \<Rightarrow> OAuthUsageResponse option"
| Clear

fun apply_op :: "op \<Rightarrow> cache \<Rightarrow> cache" where
  "apply_op (GetUsage p now resolved fetch) s = cache_after (getRealtimeUsage p now resolved fetch s)"
| "apply_op Clear s = clearUsageCache s"

fun run :: "op list \<Rightarrow> cache" where
  "run [] = initial_cache"
| "run (latest # earlier) = apply_op latest (run earlier)"

text \<open>
  The snapshot that was current immediately before the latest successful fetch of a
  history, read over the whole history.
\<close>

fun current_before_latest_fetch :: "op list \<Rightarrow> OAuthUsageResponse option" where
  "current_before_latest_fetch [] = None"
| "current_before_latest_fetch (GetUsage p now resolved fetch # earlier) =
     (if fetch_succeeded p now resolved fetch (run earlier) then cachedUsage (run earlier)
      else current_before_latest_fetch earlier)"
| "current_before_latest_fetch (Clear # earlier) = current_before_latest_fetch earlier"

text \<open>The same, read over the part of the history that follows the latest clearing.\<close>

fun current_before_latest_fetch_since_clear :: "op list \<Rightarrow> OAuthUsageResponse option" where
  "current_before_latest_fetch_since_clear [] = None"
| "current_before_latest_fetch_since_clear (GetUsage p now resolved fetch # earlier) =
     (if fetch_succeeded p now resolved fetch (run earlier) then cachedUsage (run earlier)
      else current_before_latest_fetch_since_clear earlier)"
| "current_before_latest_fetch_since_clear (Clear # earlier) = None"

text \<open>
  A sequence of calls of \<^verbatim>\<open>getRealtimeUsage\<close> in the order they are made, each with its
  poll interval, clock reading, resolver answer and endpoint: the values returned and
  the cache left.
\<close>

type_synonym call = "real \<times> int \<times> string option \<times> (string \<Rightarrow> OAuthUsageResponse option)"

fun serve :: "cache \<Rightarrow> call list \<Rightarrow> OAuthUsageResponse option list \<times> cache" where
  "serve s [] = ([], s)"
| "serve s ((p, now, resolved, fetch) # cs) =
     (case getRealtimeUsage p now resolved fetch s of
        (res, ev, s') \<Rightarrow> (case serve s' cs of (rs, s'') \<Rightarrow> (res # rs, s'')))"

section \<open>The temporal progress calculator: \<^verbatim>\<open>src/segments/weekly.ts\<close>\<close>

text \<open>
  The remainder \<^verbatim>\<open>a % b\<close> of two integers, \<open>b\<close> not zero: it is truncated, so it has
  the sign of \<open>a\<close>.
\<close>

definition js_rem :: "int \<Rightarrow> int \<Rightarrow> int" where
  "js_rem a b = (if a < 0 then - ((- a) mod \<bar>b\<bar>) else a mod \<bar>b\<bar>)"

text \<open>
  \<^verbatim>\<open>calculateWeekProgress(resetDay, resetHour, resetMinute)\<close>. The first three arguments
  are what \<^verbatim>\<open>getDay()\<close>, \<^verbatim>\<open>getHours()\<close> and \<^verbatim>\<open>getMinutes()\<close> read from
  \<^verbatim>\<open>new Date()\<close>. The sums and differences of integers are exact in binary64
  (the integers are far below \<open>2 ^ 53\<close>); the division by 60, the sum with its
  result, the division by \<^verbatim>\<open>totalHoursInWeek\<close> and the multiplication by 100 are each
  rounded. \<^verbatim>\<open>Math.min\<close>, \<^verbatim>\<open>Math.max\<close> and \<^verbatim>\<open>Math.round\<close> are exact.
\<close>

definition calculateWeekProgress :: "int \<Rightarrow> int \<Rightarrow> int \<Rightarrow> int js \<Rightarrow> int js \<Rightarrow> int js \<Rightarrow> int" where
  "calculateWeekProgress dayOfWeek hours minutes resetDay resetHour resetMinute =
     (let targetDay = nullish resetDay 1;
          targetHour = nullish resetHour 0;
          targetMinute = nullish resetMinute 0;
          daysSinceReset0 = js_rem (dayOfWeek - targetDay + 7) 7;
          daysSinceReset =
            (if daysSinceReset0 = 0
             then (let currentMinutes = hours * 60 + minutes;
                       resetMinutes = targetHour * 60 + targetMinute
                   in if currentMinutes < resetMinutes then 7 else daysSinceReset0)
             else daysSinceReset0);
          hoursIntoWeek =
            binary64 (real_of_int (daysSinceReset * 24 + hours - targetHour)
                        + binary64 (real_of_int (minutes - targetMinute) / 60));
          totalHoursInWeek = 7 * 24;
          progress =
            max 0 (min 100 (binary64 (binary64 (hoursIntoWeek / totalHoursInWeek) * 100)))
      in Math_round progress)"

text \<open>
  The minutes since the most recent occurrence of the schedule point (day, hour,
  minute) in a week of \<open>7 * 24 * 60\<close> minutes, as the specification words it.
\<close>

definition minutes_since_schedule_point :: "int \<Rightarrow> int \<Rightarrow> int \<Rightarrow> int \<Rightarrow> int \<Rightarrow> int \<Rightarrow> int" where
  "minutes_since_schedule_point dayOfWeek hours minutes targetDay targetHour targetMinute =
     ((dayOfWeek * 1440 + hours * 60 + minutes)
        - (targetDay * 1440 + targetHour * 60 + targetMinute)) mod 10080"

text \<open>
  A day of the week with an hour and a minute, as \<^verbatim>\<open>getDay()\<close>, \<^verbatim>\<open>getHours()\<close> and
  \<^verbatim>\<open>getMinutes()\<close> give them and as a schedule is configured.
\<close>

definition valid_time :: "int \<Rightarrow> int \<Rightarrow> int \<Rightarrow> bool" where
  "valid_time day hour minute =
     (0 \<le> day \<and> day \<le> 6 \<and> 0 \<le> hour \<and> hour \<le> 23 \<and> 0 \<le> minute \<and> minute \<le> 59)"

text \<open>
  \<^verbatim>\<open>d.setDate(d.getDate() + n)\<close> on a copy of a date: \<open>n\<close> calendar days later at the
  same local time. The model is a host time zone with a constant offset, where that is
  \<open>n\<close> times 24 hours.
\<close>

definition setDate_plus :: "int \<Rightarrow> int \<Rightarrow> int" where
  "setDate_plus t n = t + n * 86400000"

text \<open>\<^verbatim>\<open>calculateWeekProgressFromResetTime(resetAt)\<close>, with \<open>now\<close> the reading of the clock
  and \<open>resetAtMs\<close> the time value of the argument.\<close>

definition calculateWeekProgressFromResetTime :: "int \<Rightarrow> int \<Rightarrow> int" where
  "calculateWeekProgressFromResetTime now resetAtMs =
     (let resetTime = resetAtMs;
          periodStart = setDate_plus resetTime (- 7)
      in if now > resetTime
         then (let newPeriodStart = resetTime;
                   newResetTime = setDate_plus resetTime 7;
                   totalMs = newResetTime - newPeriodStart;
                   elapsedMs = now - newPeriodStart
               in Math_round ((real_of_int elapsedMs / real_of_int totalMs) * 100))
         else (let totalMs = resetTime - periodStart;
                   elapsedMs = now - periodStart;
                   progress = max 0 (min 100 ((real_of_int elapsedMs / real_of_int totalMs) * 100))
               in Math_round progress))"

text \<open>
  Modelled from the spec: the time remaining of the short window, computed by
  \<^verbatim>\<open>BlockProvider.getBlockInfo\<close> in \<^verbatim>\<open>src/segments/block.ts\<close>, a file that is not among
  the sources (its test is). The specification gives it as
  \<^verbatim>\<open>max(0, round((resetAt - now) in minutes))\<close>.
\<close>

definition timeRemaining :: "int \<Rightarrow> int \<Rightarrow> int" where
  "timeRemaining resetAtMs now = max 0 (Math_round (real_of_int (resetAtMs - now) / (1000 * 60)))"

section \<open>The history sampler: \<^verbatim>\<open>src/utils/history.ts\<close>\<close>

text \<open>
  A string of the program is the list of its UTF-16 code units. The eight glyphs of
  \<^verbatim>\<open>SPARKLINE_CHARS\<close> are U+2581 to U+2588, one code unit each.
\<close>

definition SPARKLINE_CHARS :: "nat list" where
  "SPARKLINE_CHARS = [9601, 9602, 9603, 9604, 9605, 9606, 9607, 9608]"

text \<open>
  \<^verbatim>\<open>s[i]\<close> as \<^verbatim>\<open>join("")\<close> renders it: the code unit at an index in range, nothing for
  \<^verbatim>\<open>undefined\<close>.
\<close>

definition char_at :: "nat list \<Rightarrow> int \<Rightarrow> nat list" where
  "char_at s i = (if 0 \<le> i \<and> i < int (length s) then [s ! nat i] else [])"

text \<open>
  \<^verbatim>\<open>xs.slice(start)\<close> with an integer \<open>start\<close>: a negative one counts from the end,
  and \<^verbatim>\<open>-0\<close> is \<open>0\<close>.
\<close>

definition slice_from :: "'a list \<Rightarrow> int \<Rightarrow> 'a list" where
  "slice_from xs start =
     (let len = int (length xs);
          k = (if start < 0 then max (len + start) 0 else min start len)
      in drop (nat k) xs)"

text \<open>\<^verbatim>\<open>samples.filter(s => s !== null)\<close>.\<close>

fun non_null :: "'a option list \<Rightarrow> 'a list" where
  "non_null [] = []"
| "non_null (None # xs) = non_null xs"
| "non_null (Some x # xs) = x # non_null xs"

definition sparkline_char :: "real \<Rightarrow> nat list" where
  "sparkline_char v =
     (let clamped = max 0 (min 100 v);
          index = Math_floor ((clamped / 100) * 7)
      in char_at SPARKLINE_CHARS index)"

definition getSparkline :: "real option list \<Rightarrow> int \<Rightarrow> nat list" where
  "getSparkline samples width =
     (let validSamples = non_null samples
      in if length validSamples = 0 then []
         else (let recentSamples = slice_from validSamples (- width)
               in concat (map sparkline_char recentSamples)))"

text \<open>The most recent \<open>n\<close> entries of a list, all of them when it has fewer.\<close>

definition most_recent :: "nat \<Rightarrow> 'a list \<Rightarrow> 'a list" where
  "most_recent n xs = drop (length xs - n) xs"

section \<open>Example values\<close>

definition body_example :: ApiResponse where
  "body_example =
     \<lparr> five_hour = Val \<lparr> resets_at = Val ''2025-01-15T12:00:00Z'', utilization = Val 100 \<rparr>,
       seven_day = Val \<lparr> resets_at = Null, utilization = Undefined \<rparr>,
       seven_day_opus = Null,
       seven_day_sonnet = Undefined \<rparr>"

definition net_example :: "string \<Rightarrow> http_response" where
  "net_example token = Response True (Json body_example)"

definition parse_example :: "string \<Rightarrow> int" where
  "parse_example str = (if str = ''2025-01-15T12:00:00Z'' then 1736942400000 else 0)"

definition clk_example :: "nat \<Rightarrow> int" where
  "clk_example k = 1736900000000 + int k"

definition window_of :: "real \<Rightarrow> UsageData" where
  "window_of pct = \<lparr> resetAt = 0, percentUsed = pct, isOverLimit = (pct \<ge> 100) \<rparr>"

definition no_raw :: ApiResponse where
  "no_raw = \<lparr> five_hour = Undefined, seven_day = Undefined,
              seven_day_opus = Undefined, seven_day_sonnet = Undefined \<rparr>"

definition usage_at :: "real \<Rightarrow> OAuthUsageResponse" where
  "usage_at pct =
     \<lparr> fiveHour = Some (window_of pct), sevenDay = None, sevenDayOpus = None,
       sevenDaySonnet = None, raw = no_raw \<rparr>"

definition fetch_ok :: "real \<Rightarrow> string \<Rightarrow> OAuthUsageResponse option" where
  "fetch_ok pct token = Some (usage_at pct)"

definition fetch_fails :: "string \<Rightarrow> OAuthUsageResponse option" where
  "fetch_fails token = None"

definition trend_example :: cache where
  "trend_example =
     \<lparr> cachedUsage = Some \<lparr> fiveHour = Some (window_of 50.6), sevenDay = Some (window_of 30),
                            sevenDayOpus = Some (window_of 10.5),
                            sevenDaySonnet = Some (window_of 5), raw = no_raw \<rparr>,
       previousUsage = Some \<lparr> fiveHour = Some (window_of 50), sevenDay = Some (window_of 31),
                              sevenDayOpus = Some (window_of 10), sevenDaySonnet = None,
                              raw = no_raw \<rparr>,
       cacheTimestamp = 1000, cachedToken = None \<rparr>"

definition stale_example :: cache where
  "stale_example =
     \<lparr> cachedUsage = Some (usage_at 40), previousUsage = Some (usage_at 30),
       cacheTimestamp = 1000, cachedToken = Some ''sk-ant-oat01-expired'' \<rparr>"

definition history_example :: "op list" where
  "history_example =
     [Clear,
      GetUsage 15 2000000 None (fetch_ok 20),
      GetUsage 15 1000 (Some ''sk-ant-oat01-abc'') (fetch_ok 10)]"

definition failing_calls_example :: "call list" where
  "failing_calls_example =
     [(15, 901000, None, fetch_fails),
      (15, 902000, Some ''sk-ant-oat01-new'', fetch_fails),
      (10, 5000000, None, fetch_fails)]"

section \<open>Trend directions\<close>

lemma compareTrend_absent:
  "c = None \<or> p = None \<Longrightarrow> compareTrend c p = None"
  by (cases c; cases p) auto

lemma compareTrend_present:
  "compareTrend (Some c) (Some p) =
     Some (if percentUsed c - percentUsed p > 0.5 then Up
           else if percentUsed c - percentUsed p < - 0.5 then Down
           else Same)"
  by (simp add: Let_def)

lemma getUsageTrend_snapshot_absent:
  "cachedUsage s = None \<or> previousUsage s = None \<Longrightarrow>
     getUsageTrend s = \<lparr> fiveHourTrend = None, sevenDayTrend = None,
                         sevenDayOpusTrend = None, sevenDaySonnetTrend = None \<rparr>"
  by (auto simp: getUsageTrend_def split: option.splits)

lemma getUsageTrend_both:
  "cachedUsage s = Some cur \<Longrightarrow> previousUsage s = Some prev \<Longrightarrow>
     (window, trend) \<in> set trend_dimensions \<Longrightarrow>
     trend (getUsageTrend s) = compareTrend (window cur) (window prev)"
  by (auto simp: getUsageTrend_def trend_dimensions_def)

text \<open>
  Claim C5. For every cache, \<^verbatim>\<open>getUsageTrend\<close> gives each of the four dimensions: no
  direction when the current or the previous snapshot is absent or lacks the
  dimension; \<open>Up\<close> when the current percentage minus the previous one exceeds 0.5;
  \<open>Down\<close> when it is below minus 0.5; \<open>Same\<close> when its absolute value is at most 0.5.
\<close>

theorem getUsageTrend_directions:
  "\<forall>(window, trend) \<in> set trend_dimensions.
     (cachedUsage s = None \<or> previousUsage s = None \<longrightarrow> trend (getUsageTrend s) = None)
     \<and> (\<forall>cur prev. cachedUsage s = Some cur \<and> previousUsage s = Some prev \<longrightarrow>
          (window cur = None \<or> window prev = None \<longrightarrow> trend (getUsageTrend s) = None)
          \<and> (\<forall>c p. window cur = Some c \<and> window prev = Some p \<longrightarrow>
               (percentUsed c - percentUsed p > 0.5 \<longrightarrow> trend (getUsageTrend s) = Some Up)
               \<and> (percentUsed c - percentUsed p < - 0.5 \<longrightarrow> trend (getUsageTrend s) = Some Down)
               \<and> (\<bar>percentUsed c - percentUsed p\<bar> \<le> 0.5 \<longrightarrow> trend (getUsageTrend s) = Some Same)))"
proof (clarify, intro conjI impI allI)
  fix window trend
  assume d: "(window, trend) \<in> set trend_dimensions"
  {
    assume "cachedUsage s = None \<or> previousUsage s = None"
    from getUsageTrend_snapshot_absent [OF this] d
    show "trend (getUsageTrend s) = None"
      by (auto simp: trend_dimensions_def)
  }
  fix cur prev
  assume cp: "cachedUsage s = Some cur \<and> previousUsage s = Some prev"
  then have eq: "trend (getUsageTrend s) = compareTrend (window cur) (window prev)"
    using d by (simp add: getUsageTrend_both)
  {
    assume "window cur = None \<or> window prev = None"
    then show "trend (getUsageTrend s) = None"
      by (simp add: eq compareTrend_absent)
  }
  fix c p
  assume w: "window cur = Some c \<and> window prev = Some p"
  {
    assume "percentUsed c - percentUsed p > 0.5"
    then show "trend (getUsageTrend s) = Some Up"
      using w by (simp add: eq compareTrend_present)
  }
  {
    assume "percentUsed c - percentUsed p < - 0.5"
    then show "trend (getUsageTrend s) = Some Down"
      using w by (simp add: eq compareTrend_present)
  }
  {
    assume "\<bar>percentUsed c - percentUsed p\<bar> \<le> 0.5"
    then show "trend (getUsageTrend s) = Some Same"
      using w by (auto simp: eq compareTrend_present)
  }
qed

theorem getUsageTrend_directions_witness:
  "fiveHourTrend (getUsageTrend trend_example) = Some Up
   \<and> sevenDayTrend (getUsageTrend trend_example) = Some Down
   \<and> sevenDayOpusTrend (getUsageTrend trend_example) = Some Same
   \<and> sevenDaySonnetTrend (getUsageTrend trend_example) = None
   \<and> fiveHourTrend (getUsageTrend initial_cache) = None"
  using getUsageTrend_directions [of trend_example] getUsageTrend_directions [of initial_cache]
  by (simp add: trend_dimensions_def trend_example_def initial_cache_def window_of_def)

section \<open>Normalizing the quota response\<close>

lemma parseUsageBlock_absent:
  "b = Undefined \<or> b = Null \<Longrightarrow> parseUsageBlock parse now b = None"
  by auto

lemma parseUsageBlock_present:
  "\<exists>w. parseUsageBlock parse now (Val b) = Some w
     \<and> (\<forall>u. utilization b = Val u \<longrightarrow> percentUsed w = u)
     \<and> (utilization b = Undefined \<or> utilization b = Null \<longrightarrow> percentUsed w = 0)
     \<and> isOverLimit w = (percentUsed w \<ge> 100)
     \<and> (\<forall>str. resets_at b = Val str \<and> str \<noteq> [] \<longrightarrow> resetAt w = parse str)
     \<and> (resets_at b = Undefined \<or> resets_at b = Null \<longrightarrow> resetAt w = now)"
  by (cases "utilization b"; cases "resets_at b") auto

lemma parseUsageBlock_or_undefined:
  "parseUsageBlock parse now (or_undefined b) = parseUsageBlock parse now b"
  by (cases b) auto

lemma fetchUsageFromAPI_windows:
  assumes "net token = Response True (Json data)"
    and "(key, window, k) \<in> set usage_keys"
  shows "\<exists>r. fetchUsageFromAPI parse clk net token = Some r
           \<and> window r = parseUsageBlock parse (clk k) (key data)"
  using assms by (auto simp: usage_keys_def parseUsageBlock_or_undefined)

text \<open>
  Claim C6. For every body of a successful answer, \<^verbatim>\<open>fetchUsageFromAPI\<close> returns a
  snapshot in which, for each of the four top-level keys: a missing or null key gives
  an absent window; a present key gives a window whose \<open>percentUsed\<close> is the reported
  utilization, or 0 when that is missing or null, whose \<open>isOverLimit\<close> is
  \<open>percentUsed \<ge> 100\<close>, and whose \<open>resetAt\<close> is the parsed \<open>resets_at\<close> string, or
  the clock reading when that is missing or null.
\<close>

theorem fetchUsageFromAPI_normalizes:
  assumes "net token = Response True (Json data)"
  shows "\<exists>r. fetchUsageFromAPI parse clk net token = Some r
     \<and> (\<forall>(key, window, k) \<in> set usage_keys.
          (key data = Undefined \<or> key data = Null \<longrightarrow> window r = None)
          \<and> (\<forall>b. key data = Val b \<longrightarrow>
               (\<exists>w. window r = Some w
                  \<and> (\<forall>u. utilization b = Val u \<longrightarrow> percentUsed w = u)
                  \<and> (utilization b = Undefined \<or> utilization b = Null \<longrightarrow> percentUsed w = 0)
                  \<and> isOverLimit w = (percentUsed w \<ge> 100)
                  \<and> (\<forall>str. resets_at b = Val str \<and> str \<noteq> [] \<longrightarrow> resetAt w = parse str)
                  \<and> (resets_at b = Undefined \<or> resets_at b = Null \<longrightarrow> resetAt w = clk k))))"
proof -
  obtain r where r: "fetchUsageFromAPI parse clk net token = Some r"
    using assms by simp
  have "(key data = Undefined \<or> key data = Null \<longrightarrow> window r = None)
          \<and> (\<forall>b. key data = Val b \<longrightarrow>
               (\<exists>w. window r = Some w
                  \<and> (\<forall>u. utilization b = Val u \<longrightarrow> percentUsed w = u)
                  \<and> (utilization b = Undefined \<or> utilization b = Null \<longrightarrow> percentUsed w = 0)
                  \<and> isOverLimit w = (percentUsed w \<ge> 100)
                  \<and> (\<forall>str. resets_at b = Val str \<and> str \<noteq> [] \<longrightarrow> resetAt w = parse str)
                  \<and> (resets_at b = Undefined \<or> resets_at b = Null \<longrightarrow> resetAt w = clk k)))"
    if d: "(key, window, k) \<in> set usage_keys" for key window k
  proof -
    from fetchUsageFromAPI_windows
      [where net = net and token = token and parse = parse and clk = clk, OF assms d] r
    have w: "window r = parseUsageBlock parse (clk k) (key data)" by simp
    show ?thesis
    proof (intro conjI impI allI)
      assume "key data = Undefined \<or> key data = Null"
      then show "window r = None"
        by (simp add: w parseUsageBlock_absent)
    next
      fix b assume "key data = Val b"
      then show "\<exists>w. window r = Some w
                  \<and> (\<forall>u. utilization b = Val u \<longrightarrow> percentUsed w = u)
                  \<and> (utilization b = Undefined \<or> utilization b = Null \<longrightarrow> percentUsed w = 0)
                  \<and> isOverLimit w = (percentUsed w \<ge> 100)
                  \<and> (\<forall>str. resets_at b = Val str \<and> str \<noteq> [] \<longrightarrow> resetAt w = parse str)
                  \<and> (resets_at b = Undefined \<or> resets_at b = Null \<longrightarrow> resetAt w = clk k)"
        using parseUsageBlock_present [of parse "clk k" b] by (simp add: w)
    qed
  qed
  with r show ?thesis by blast
qed

theorem fetchUsageFromAPI_normalizes_witness:
  "\<exists>r. fetchUsageFromAPI parse_example clk_example net_example ''sk-ant-oat01'' = Some r
     \<and> fiveHour r = Some \<lparr> resetAt = 1736942400000, percentUsed = 100, isOverLimit = True \<rparr>
     \<and> sevenDay r = Some \<lparr> resetAt = 1736900000001, percentUsed = 0, isOverLimit = False \<rparr>
     \<and> sevenDayOpus r = None
     \<and> sevenDaySonnet r = None"
proof -
  have h: "net_example ''sk-ant-oat01'' = Response True (Json body_example)"
    by (simp add: net_example_def)
  from fetchUsageFromAPI_normalizes
    [where net = net_example and token = "''sk-ant-oat01''" and parse = parse_example
       and clk = clk_example, OF h]
  obtain r where r: "fetchUsageFromAPI parse_example clk_example net_example ''sk-ant-oat01'' = Some r"
    and k: "\<forall>(key, window, k) \<in> set usage_keys.
          (key body_example = Undefined \<or> key body_example = Null \<longrightarrow> window r = None)
          \<and> (\<forall>b. key body_example = Val b \<longrightarrow>
               (\<exists>w. window r = Some w
                  \<and> (\<forall>u. utilization b = Val u \<longrightarrow> percentUsed w = u)
                  \<and> (utilization b = Undefined \<or> utilization b = Null \<longrightarrow> percentUsed w = 0)
                  \<and> isOverLimit w = (percentUsed w \<ge> 100)
                  \<and> (\<forall>str. resets_at b = Val str \<and> str \<noteq> [] \<longrightarrow> resetAt w = parse_example str)
                  \<and> (resets_at b = Undefined \<or> resets_at b = Null \<longrightarrow> resetAt w = clk_example k)))"
    by blast
  from k have "fiveHour r = Some \<lparr> resetAt = 1736942400000, percentUsed = 100, isOverLimit = True \<rparr>"
    by (auto simp: usage_keys_def body_example_def parse_example_def)
  moreover from k have "sevenDay r = Some \<lparr> resetAt = 1736900000001, percentUsed = 0, isOverLimit = False \<rparr>"
    by (auto simp: usage_keys_def body_example_def clk_example_def)
  moreover from k have "sevenDayOpus r = None" "sevenDaySonnet r = None"
    by (auto simp: usage_keys_def body_example_def)
  ultimately show ?thesis using r by blast
qed

section \<open>One call of the cache\<close>

lemma cache_fresh_iff:
  "cache_fresh p now s \<longleftrightarrow>
     cachedUsage s \<noteq> None \<and> real_of_int (now - cacheTimestamp s) < p * 60 * 1000"
  by (simp add: cache_fresh_def Let_def)

lemma getRealtimeUsage_hit:
  "cache_fresh p now s \<Longrightarrow> getRealtimeUsage p now resolved fetch s = (cachedUsage s, [], s)"
  by (simp add: getRealtimeUsage_def)

lemma getRealtimeUsage_unresolved:
  "\<not> cache_fresh p now s \<Longrightarrow> no_token (token_in_use resolved s) \<Longrightarrow>
     getRealtimeUsage p now resolved fetch s = (None, [ResolveToken], s\<lparr> cachedToken := resolved \<rparr>)"
  by (cases resolved; cases "cachedToken s")
     (auto simp: getRealtimeUsage_def token_in_use_def split: if_splits)

lemma getRealtimeUsage_fetch_fails:
  "\<not> cache_fresh p now s \<Longrightarrow> token_in_use resolved s = Some t \<Longrightarrow> t \<noteq> [] \<Longrightarrow>
   fetch t = None \<Longrightarrow>
     getRealtimeUsage p now resolved fetch s =
       (None,
        (if no_token (cachedToken s) then [ResolveToken] else []) @ [FetchUsage t],
        s\<lparr> cachedToken := None \<rparr>)"
  by (cases "cachedToken s")
     (auto simp: getRealtimeUsage_def token_in_use_def split: if_splits)

lemma getRealtimeUsage_fetch_ok:
  "\<not> cache_fresh p now s \<Longrightarrow> token_in_use resolved s = Some t \<Longrightarrow> t \<noteq> [] \<Longrightarrow>
   fetch t = Some u \<Longrightarrow>
     getRealtimeUsage p now resolved fetch s =
       (Some u,
        (if no_token (cachedToken s) then [ResolveToken] else []) @ [FetchUsage t],
        s\<lparr> cachedToken := Some t, previousUsage := cachedUsage s, cachedUsage := Some u,
           cacheTimestamp := now \<rparr>)"
  by (cases "cachedToken s")
     (auto simp: getRealtimeUsage_def token_in_use_def split: if_splits)

text \<open>The four ways a call can go.\<close>

lemma getRealtimeUsage_cases:
  obtains
    (hit) "cache_fresh p now s"
      "getRealtimeUsage p now resolved fetch s = (cachedUsage s, [], s)"
  | (unresolved) "\<not> cache_fresh p now s" "no_token (token_in_use resolved s)"
      "getRealtimeUsage p now resolved fetch s =
         (None, [ResolveToken], s\<lparr> cachedToken := resolved \<rparr>)"
  | (fails) t where "\<not> cache_fresh p now s" "token_in_use resolved s = Some t" "t \<noteq> []"
      "fetch t = None"
      "getRealtimeUsage p now resolved fetch s =
         (None, (if no_token (cachedToken s) then [ResolveToken] else []) @ [FetchUsage t],
          s\<lparr> cachedToken := None \<rparr>)"
  | (ok) t u where "\<not> cache_fresh p now s" "token_in_use resolved s = Some t" "t \<noteq> []"
      "fetch t = Some u"
      "getRealtimeUsage p now resolved fetch s =
         (Some u, (if no_token (cachedToken s) then [ResolveToken] else []) @ [FetchUsage t],
          s\<lparr> cachedToken := Some t, previousUsage := cachedUsage s, cachedUsage := Some u,
             cacheTimestamp := now \<rparr>)"
proof (cases "cache_fresh p now s")
  case True
  then show ?thesis using hit getRealtimeUsage_hit by blast
next
  case nf: False
  show ?thesis
  proof (cases "no_token (token_in_use resolved s)")
    case True
    then show ?thesis using unresolved nf getRealtimeUsage_unresolved by blast
  next
    case False
    then obtain t where t: "token_in_use resolved s = Some t" "t \<noteq> []"
      by (cases "token_in_use resolved s") auto
    show ?thesis
    proof (cases "fetch t")
      case None
      then show ?thesis using fails nf t getRealtimeUsage_fetch_fails by blast
    next
      case (Some u)
      then show ?thesis using ok nf t getRealtimeUsage_fetch_ok by blast
    qed
  qed
qed

lemma fetch_succeeded_iff:
  "fetch_succeeded p now resolved fetch s \<longleftrightarrow>
     \<not> cache_fresh p now s \<and>
     (\<exists>t u. token_in_use resolved s = Some t \<and> t \<noteq> [] \<and> fetch t = Some u)"
  by (rule getRealtimeUsage_cases
        [where p = p and now = now and s = s and resolved = resolved and fetch = fetch])
     (auto simp: fetch_succeeded_def fetch_count_def)

text \<open>
  Claim C2. When the cached snapshot is missing or expired and the fetch, made with the
  token in use, fails: the call returns nothing; the current snapshot, the previous
  snapshot and the fetch timestamp are unchanged; the cached token is discarded; and a
  next call, at a time not earlier and with a poll interval not longer, runs the
  credential resolution.
\<close>

theorem getRealtimeUsage_fetch_failure:
  assumes "cachedUsage s = None \<or> p * 60 * 1000 \<le> real_of_int (now - cacheTimestamp s)"
    and "token_in_use resolved s = Some t" and "t \<noteq> []" and "fetch t = None"
  shows "returned (getRealtimeUsage p now resolved fetch s) = None
     \<and> cachedUsage (cache_after (getRealtimeUsage p now resolved fetch s)) = cachedUsage s
     \<and> previousUsage (cache_after (getRealtimeUsage p now resolved fetch s)) = previousUsage s
     \<and> cacheTimestamp (cache_after (getRealtimeUsage p now resolved fetch s)) = cacheTimestamp s
     \<and> cachedToken (cache_after (getRealtimeUsage p now resolved fetch s)) = None
     \<and> (\<forall>p' now' resolved' fetch'. p' \<le> p \<and> now \<le> now' \<longrightarrow>
          ResolveToken \<in> set (events (getRealtimeUsage p' now' resolved' fetch'
                                      (cache_after (getRealtimeUsage p now resolved fetch s)))))"
proof -
  have nf: "\<not> cache_fresh p now s"
    using assms(1) by (auto simp: cache_fresh_iff)
  have eq: "getRealtimeUsage p now resolved fetch s =
       (None, (if no_token (cachedToken s) then [ResolveToken] else []) @ [FetchUsage t],
        s\<lparr> cachedToken := None \<rparr>)"
    using nf assms(2-4) by (rule getRealtimeUsage_fetch_fails)
  have nxt: "ResolveToken
      \<in> set (events (getRealtimeUsage p' now' resolved' fetch' (s\<lparr> cachedToken := None \<rparr>)))"
    if "p' \<le> p \<and> now \<le> now'" for p' now' resolved' fetch'
  proof -
    have nf': "\<not> cache_fresh p' now' (s\<lparr> cachedToken := None \<rparr>)"
    proof (cases "cachedUsage s")
      case None
      then show ?thesis by (simp add: cache_fresh_iff)
    next
      case (Some u)
      with assms(1) have "p * 60 * 1000 \<le> real_of_int (now - cacheTimestamp s)" by simp
      moreover have "p' * 60 * 1000 \<le> p * 60 * 1000" using that by simp
      moreover have "real_of_int (now - cacheTimestamp s) \<le> real_of_int (now' - cacheTimestamp s)"
        using that by simp
      ultimately show ?thesis by (simp add: cache_fresh_iff)
    qed
    show ?thesis
      by (rule getRealtimeUsage_cases
            [where p = p' and now = now' and s = "s\<lparr> cachedToken := None \<rparr>"
               and resolved = resolved' and fetch = fetch'])
         (use nf' in \<open>auto simp: events_def\<close>)
  qed
  show ?thesis
    using nxt by (simp add: eq returned_def cache_after_def)
qed


theorem getRealtimeUsage_fetch_failure_witness:
  "returned (getRealtimeUsage 15 901000 None fetch_fails stale_example) = None
   \<and> cachedUsage (cache_after (getRealtimeUsage 15 901000 None fetch_fails stale_example))
       = Some (usage_at 40)
   \<and> previousUsage (cache_after (getRealtimeUsage 15 901000 None fetch_fails stale_example))
       = Some (usage_at 30)
   \<and> cacheTimestamp (cache_after (getRealtimeUsage 15 901000 None fetch_fails stale_example))
       = 1000
   \<and> cachedToken (cache_after (getRealtimeUsage 15 901000 None fetch_fails stale_example)) = None
   \<and> ResolveToken \<in> set (events (getRealtimeUsage 15 902000 (Some ''sk-ant-oat01-new'') (fetch_ok 50)
        (cache_after (getRealtimeUsage 15 901000 None fetch_fails stale_example))))"
proof -
  have h1: "cachedUsage stale_example = None
      \<or> 15 * 60 * 1000 \<le> real_of_int (901000 - cacheTimestamp stale_example)"
    by (simp add: stale_example_def)
  have h2: "token_in_use None stale_example = Some ''sk-ant-oat01-expired''"
    by (simp add: token_in_use_def stale_example_def)
  have h3: "''sk-ant-oat01-expired'' \<noteq> []" by simp
  have h4: "fetch_fails ''sk-ant-oat01-expired'' = None" by (simp add: fetch_fails_def)
  note t = getRealtimeUsage_fetch_failure
    [where s = stale_example and p = 15 and now = 901000 and resolved = None
       and fetch = fetch_fails and t = "''sk-ant-oat01-expired''", OF h1 h2 h3 h4]
  from t have "ResolveToken \<in> set (events (getRealtimeUsage 15 902000 (Some ''sk-ant-oat01-new'')
        (fetch_ok 50) (cache_after (getRealtimeUsage 15 901000 None fetch_fails stale_example))))"
    by simp
  with t show ?thesis by (simp add: stale_example_def)
qed

text \<open>
  Claim C4. When a snapshot is cached and its age is strictly less than the poll
  interval in milliseconds, the call returns the cached snapshot, has no event (no
  credential resolution, no fetch) and leaves the cache as it is. So a call that
  fetched successfully and a second call less than the poll interval later call the
  endpoint exactly once together.
\<close>

theorem getRealtimeUsage_cache_hit:
  "(cachedUsage s = Some u \<and> real_of_int (now - cacheTimestamp s) < p * 60 * 1000 \<longrightarrow>
      getRealtimeUsage p now resolved fetch s = (Some u, [], s))
   \<and> (fetch_succeeded p now_a r_a f_a start \<and> real_of_int (now_b - now_a) < p * 60 * 1000 \<longrightarrow>
        fetch_count (events (getRealtimeUsage p now_a r_a f_a start))
          + fetch_count (events (getRealtimeUsage p now_b r_b f_b
                                  (cache_after (getRealtimeUsage p now_a r_a f_a start)))) = 1)"
proof (intro conjI impI)
  assume "cachedUsage s = Some u \<and> real_of_int (now - cacheTimestamp s) < p * 60 * 1000"
  then have "cache_fresh p now s" "cachedUsage s = Some u"
    by (simp_all add: cache_fresh_iff)
  then show "getRealtimeUsage p now resolved fetch s = (Some u, [], s)"
    by (simp add: getRealtimeUsage_hit)
next
  assume a: "fetch_succeeded p now_a r_a f_a start \<and> real_of_int (now_b - now_a) < p * 60 * 1000"
  then obtain t u where nf: "\<not> cache_fresh p now_a start"
    and t: "token_in_use r_a start = Some t" "t \<noteq> []" "f_a t = Some u"
    by (auto simp: fetch_succeeded_iff)
  have eq: "getRealtimeUsage p now_a r_a f_a start =
       (Some u, (if no_token (cachedToken start) then [ResolveToken] else []) @ [FetchUsage t],
        start\<lparr> cachedToken := Some t, previousUsage := cachedUsage start, cachedUsage := Some u,
            cacheTimestamp := now_a \<rparr>)"
    using nf t by (rule getRealtimeUsage_fetch_ok)
  have "cache_fresh p now_b (cache_after (getRealtimeUsage p now_a r_a f_a start))"
    using a by (simp add: eq cache_after_def cache_fresh_iff)
  then have "events (getRealtimeUsage p now_b r_b f_b (cache_after (getRealtimeUsage p now_a r_a f_a start)))
      = []"
    by (simp add: getRealtimeUsage_hit events_def)
  then show "fetch_count (events (getRealtimeUsage p now_a r_a f_a start))
          + fetch_count (events (getRealtimeUsage p now_b r_b f_b
                                  (cache_after (getRealtimeUsage p now_a r_a f_a start)))) = 1"
    by (simp add: eq events_def fetch_count_def)
qed

theorem getRealtimeUsage_cache_hit_witness:
  "getRealtimeUsage 15 900999 None fetch_fails stale_example
     = (Some (usage_at 40), [], stale_example)
   \<and> fetch_count (events (getRealtimeUsage 15 1000000 (Some ''sk-ant-oat01-abc'') (fetch_ok 10)
                            initial_cache))
      + fetch_count (events (getRealtimeUsage 15 1840000 None fetch_fails
          (cache_after (getRealtimeUsage 15 1000000 (Some ''sk-ant-oat01-abc'') (fetch_ok 10)
                          initial_cache)))) = 1"
proof -
  have h1: "cachedUsage stale_example = Some (usage_at 40)
      \<and> real_of_int (900999 - cacheTimestamp stale_example) < 15 * 60 * 1000"
    by (simp add: stale_example_def)
  have h2: "fetch_succeeded 15 1000000 (Some ''sk-ant-oat01-abc'') (fetch_ok 10) initial_cache
      \<and> real_of_int (1840000 - 1000000) < 15 * 60 * 1000"
    by (simp add: fetch_succeeded_iff cache_fresh_iff initial_cache_def token_in_use_def
        fetch_ok_def)
  from h1 h2
    getRealtimeUsage_cache_hit
      [where s = stale_example and u = "usage_at 40" and now = 900999 and p = 15
         and resolved = None and fetch = fetch_fails]
    getRealtimeUsage_cache_hit
      [where p = 15 and now_a = 1000000 and r_a = "Some ''sk-ant-oat01-abc''"
         and f_a = "fetch_ok 10" and start = initial_cache and now_b = 1840000 and r_b = None
         and f_b = fetch_fails]
  show ?thesis by blast
qed

section \<open>Histories of the cache: the previous snapshot\<close>

lemma getRealtimeUsage_fetched:
  assumes "fetch_succeeded p now resolved fetch s"
  shows "\<exists>t u. token_in_use resolved s = Some t \<and> fetch t = Some u
     \<and> getRealtimeUsage p now resolved fetch s =
         (Some u, (if no_token (cachedToken s) then [ResolveToken] else []) @ [FetchUsage t],
          s\<lparr> cachedToken := Some t, previousUsage := cachedUsage s, cachedUsage := Some u,
             cacheTimestamp := now \<rparr>)"
proof -
  from assms obtain t u where "\<not> cache_fresh p now s" "token_in_use resolved s = Some t"
    "t \<noteq> []" "fetch t = Some u"
    by (auto simp: fetch_succeeded_iff)
  then show ?thesis
    using getRealtimeUsage_fetch_ok [where fetch = fetch] by blast
qed

lemma getRealtimeUsage_not_fetched:
  assumes "\<not> fetch_succeeded p now resolved fetch s"
  shows "cachedUsage (cache_after (getRealtimeUsage p now resolved fetch s)) = cachedUsage s
     \<and> previousUsage (cache_after (getRealtimeUsage p now resolved fetch s)) = previousUsage s
     \<and> cacheTimestamp (cache_after (getRealtimeUsage p now resolved fetch s)) = cacheTimestamp s"
  by (rule getRealtimeUsage_cases
        [where p = p and now = now and s = s and resolved = resolved and fetch = fetch])
     (use assms in \<open>auto simp: cache_after_def fetch_succeeded_iff\<close>)

lemma previousUsage_run:
  "previousUsage (run h) = current_before_latest_fetch_since_clear h"
proof (induction h)
  case Nil
  show ?case by (simp add: initial_cache_def)
next
  case (Cons latest earlier)
  show ?case
  proof (cases latest)
    case Clear
    then show ?thesis by (simp add: clearUsageCache_def)
  next
    case (GetUsage p now resolved fetch)
    show ?thesis
    proof (cases "fetch_succeeded p now resolved fetch (run earlier)")
      case True
      from getRealtimeUsage_fetched [OF True]
      have "previousUsage (cache_after (getRealtimeUsage p now resolved fetch (run earlier)))
          = cachedUsage (run earlier)"
        by (auto simp: cache_after_def)
      then show ?thesis using True GetUsage by simp
    next
      case False
      from getRealtimeUsage_not_fetched [OF False]
      have "previousUsage (cache_after (getRealtimeUsage p now resolved fetch (run earlier)))
          = previousUsage (run earlier)"
        by simp
      then show ?thesis using False GetUsage Cons.IH by simp
    qed
  qed
qed

lemma run_example_first:
  "run [GetUsage 15 1000 (Some ''sk-ant-oat01-abc'') (fetch_ok 10)]
      = \<lparr> cachedUsage = Some (usage_at 10), previousUsage = None, cacheTimestamp = 1000,
          cachedToken = Some ''sk-ant-oat01-abc'' \<rparr>"
proof -
  have nf: "\<not> cache_fresh 15 1000 initial_cache"
    by (simp add: cache_fresh_iff initial_cache_def)
  have t: "token_in_use (Some ''sk-ant-oat01-abc'') initial_cache = Some ''sk-ant-oat01-abc''"
    by (simp add: token_in_use_def initial_cache_def)
  have "getRealtimeUsage 15 1000 (Some ''sk-ant-oat01-abc'') (fetch_ok 10) initial_cache =
       (Some (usage_at 10),
        (if no_token (cachedToken initial_cache) then [ResolveToken] else [])
          @ [FetchUsage ''sk-ant-oat01-abc''],
        initial_cache\<lparr> cachedToken := Some ''sk-ant-oat01-abc'',
            previousUsage := cachedUsage initial_cache, cachedUsage := Some (usage_at 10),
            cacheTimestamp := 1000 \<rparr>)"
    by (rule getRealtimeUsage_fetch_ok [OF nf t]) (simp_all add: fetch_ok_def)
  then show ?thesis
    by (simp add: cache_after_def initial_cache_def)
qed


lemma run_example_second:
  "run [GetUsage 15 2000000 None (fetch_ok 20),
        GetUsage 15 1000 (Some ''sk-ant-oat01-abc'') (fetch_ok 10)]
      = \<lparr> cachedUsage = Some (usage_at 20), previousUsage = Some (usage_at 10),
          cacheTimestamp = 2000000, cachedToken = Some ''sk-ant-oat01-abc'' \<rparr>"
proof -
  let ?s = "\<lparr> cachedUsage = Some (usage_at 10), previousUsage = None, cacheTimestamp = 1000,
          cachedToken = Some ''sk-ant-oat01-abc'' \<rparr>"
  have nf: "\<not> cache_fresh 15 2000000 ?s"
    by (simp add: cache_fresh_iff)
  have t: "token_in_use None ?s = Some ''sk-ant-oat01-abc''"
    by (simp add: token_in_use_def)
  have "getRealtimeUsage 15 2000000 None (fetch_ok 20) ?s =
       (Some (usage_at 20),
        (if no_token (cachedToken ?s) then [ResolveToken] else [])
          @ [FetchUsage ''sk-ant-oat01-abc''],
        ?s\<lparr> cachedToken := Some ''sk-ant-oat01-abc'',
            previousUsage := cachedUsage ?s, cachedUsage := Some (usage_at 20),
            cacheTimestamp := 2000000 \<rparr>)"
    by (rule getRealtimeUsage_fetch_ok [OF nf t]) (simp_all add: fetch_ok_def)
  moreover have "run [GetUsage 15 2000000 None (fetch_ok 20),
        GetUsage 15 1000 (Some ''sk-ant-oat01-abc'') (fetch_ok 10)]
      = cache_after (getRealtimeUsage 15 2000000 None (fetch_ok 20) ?s)"
    using run_example_first by simp
  ultimately show ?thesis
    by (simp add: cache_after_def)
qed

lemma fetch_succeeded_example_second:
  "fetch_succeeded 15 2000000 None (fetch_ok 20)
     (run [GetUsage 15 1000 (Some ''sk-ant-oat01-abc'') (fetch_ok 10)])"
  unfolding run_example_first
  by (simp add: fetch_succeeded_iff cache_fresh_iff token_in_use_def fetch_ok_def)

text \<open>
  Claim C3, as stated, fails. After a history of two successful fetches and a clearing,
  the previous snapshot is absent, while the snapshot that was current immediately
  before the latest successful fetch is the one of the first fetch: \<^verbatim>\<open>clearUsageCache\<close>,
  which is not a fetch, sets \<^verbatim>\<open>previousUsage\<close>.
\<close>

theorem previousUsage_after_clear_counterexample:
  "previousUsage (run (tl history_example)) = Some (usage_at 10)
   \<and> current_before_latest_fetch history_example = Some (usage_at 10)
   \<and> previousUsage (run history_example) = None
   \<and> previousUsage (run history_example) \<noteq> current_before_latest_fetch history_example"
proof (intro conjI)
  show "previousUsage (run (tl history_example)) = Some (usage_at 10)"
    unfolding history_example_def list.sel run_example_second by simp
  show "current_before_latest_fetch history_example = Some (usage_at 10)"
    unfolding history_example_def
    using fetch_succeeded_example_second
    by (simp add: run_example_first del: run.simps)
  then have cur: "current_before_latest_fetch history_example = Some (usage_at 10)" .
  show "previousUsage (run history_example) = None"
    unfolding history_example_def by (simp add: clearUsageCache_def del: apply_op.simps(1))
  then show "previousUsage (run history_example) \<noteq> current_before_latest_fetch history_example"
    using cur by simp
qed

text \<open>
  Claim C3, amended. In every cache reached from the initial one by calls of
  \<^verbatim>\<open>getRealtimeUsage\<close> and \<^verbatim>\<open>clearUsageCache\<close>, the previous snapshot is the one that was
  current immediately before the latest successful fetch since the latest clearing,
  and absent when there was none. A call whose fetch succeeds shifts the current
  snapshot into the previous one, stores the returned snapshot as the current one and
  stamps the timestamp with the clock reading; any other call leaves the three as they
  are; clearing resets the current snapshot, the previous one, the timestamp and the
  token together.
\<close>

theorem previousUsage_invariant:
  "previousUsage (run h) = current_before_latest_fetch_since_clear h
   \<and> (fetch_succeeded p now resolved fetch s \<longrightarrow>
        returned (getRealtimeUsage p now resolved fetch s) \<noteq> None
        \<and> previousUsage (cache_after (getRealtimeUsage p now resolved fetch s)) = cachedUsage s
        \<and> cachedUsage (cache_after (getRealtimeUsage p now resolved fetch s))
            = returned (getRealtimeUsage p now resolved fetch s)
        \<and> cacheTimestamp (cache_after (getRealtimeUsage p now resolved fetch s)) = now)
   \<and> (\<not> fetch_succeeded p now resolved fetch s \<longrightarrow>
        previousUsage (cache_after (getRealtimeUsage p now resolved fetch s)) = previousUsage s
        \<and> cachedUsage (cache_after (getRealtimeUsage p now resolved fetch s)) = cachedUsage s
        \<and> cacheTimestamp (cache_after (getRealtimeUsage p now resolved fetch s))
            = cacheTimestamp s)
   \<and> clearUsageCache s
       = \<lparr> cachedUsage = None, previousUsage = None, cacheTimestamp = 0, cachedToken = None \<rparr>"
proof (intro conjI impI)
  show "previousUsage (run h) = current_before_latest_fetch_since_clear h"
    by (rule previousUsage_run)
  show "clearUsageCache s
       = \<lparr> cachedUsage = None, previousUsage = None, cacheTimestamp = 0, cachedToken = None \<rparr>"
    by (simp add: clearUsageCache_def)
next
  assume "fetch_succeeded p now resolved fetch s"
  from getRealtimeUsage_fetched [OF this]
  obtain t u where eq: "getRealtimeUsage p now resolved fetch s =
         (Some u, (if no_token (cachedToken s) then [ResolveToken] else []) @ [FetchUsage t],
          s\<lparr> cachedToken := Some t, previousUsage := cachedUsage s, cachedUsage := Some u,
             cacheTimestamp := now \<rparr>)"
    by blast
  show "returned (getRealtimeUsage p now resolved fetch s) \<noteq> None"
    and "previousUsage (cache_after (getRealtimeUsage p now resolved fetch s)) = cachedUsage s"
    and "cachedUsage (cache_after (getRealtimeUsage p now resolved fetch s))
            = returned (getRealtimeUsage p now resolved fetch s)"
    and "cacheTimestamp (cache_after (getRealtimeUsage p now resolved fetch s)) = now"
    by (simp_all add: eq returned_def cache_after_def)
next
  assume "\<not> fetch_succeeded p now resolved fetch s"
  from getRealtimeUsage_not_fetched [OF this]
  show "previousUsage (cache_after (getRealtimeUsage p now resolved fetch s)) = previousUsage s"
    and "cachedUsage (cache_after (getRealtimeUsage p now resolved fetch s)) = cachedUsage s"
    and "cacheTimestamp (cache_after (getRealtimeUsage p now resolved fetch s))
            = cacheTimestamp s"
    by simp_all
qed

theorem previousUsage_invariant_witness:
  "previousUsage (run (tl history_example)) = Some (usage_at 10)
   \<and> cachedUsage (run (tl history_example)) = Some (usage_at 20)
   \<and> cacheTimestamp (run (tl history_example)) = 2000000
   \<and> previousUsage (run history_example) = None
   \<and> previousUsage (cache_after (getRealtimeUsage 15 901000 None fetch_fails stale_example))
       = Some (usage_at 30)"
proof -
  let ?s = "run [GetUsage 15 1000 (Some ''sk-ant-oat01-abc'') (fetch_ok 10)]"
  have f3: "\<not> fetch_succeeded 15 901000 None fetch_fails stale_example"
    by (simp add: fetch_succeeded_iff fetch_fails_def)
  have tl: "run (tl history_example) = cache_after (getRealtimeUsage 15 2000000 None (fetch_ok 20) ?s)"
    unfolding history_example_def list.sel by simp
  have hist: "current_before_latest_fetch_since_clear history_example = None"
    by (simp add: history_example_def)
  note a = previousUsage_invariant
    [where h = "tl history_example" and p = 15 and now = 2000000 and resolved = None
       and fetch = "fetch_ok 20" and s = ?s]
  note b = previousUsage_invariant
    [where h = history_example and p = 15 and now = 901000 and resolved = None
       and fetch = fetch_fails and s = stale_example]
  from a fetch_succeeded_example_second have
    "previousUsage (run (tl history_example)) = cachedUsage ?s
     \<and> cachedUsage (run (tl history_example))
         = returned (getRealtimeUsage 15 2000000 None (fetch_ok 20) ?s)
     \<and> cacheTimestamp (run (tl history_example)) = 2000000"
    unfolding tl by blast
  moreover have "cachedUsage ?s = Some (usage_at 10)"
    unfolding run_example_first by simp
  moreover have "returned (getRealtimeUsage 15 2000000 None (fetch_ok 20) ?s) = Some (usage_at 20)"
    using run_example_second tl a fetch_succeeded_example_second by simp
  moreover from b f3 hist have "previousUsage (run history_example) = None
     \<and> previousUsage (cache_after (getRealtimeUsage 15 901000 None fetch_fails stale_example))
       = Some (usage_at 30)"
    by (simp add: stale_example_def)
  ultimately show ?thesis by simp
qed

section \<open>A stale snapshot\<close>

lemma getRealtimeUsage_miss_returned:
  assumes "\<not> cache_fresh p now s"
  shows "returned (getRealtimeUsage p now resolved fetch s) = None
     \<or> (\<exists>t. token_in_use resolved s = Some t
            \<and> FetchUsage t \<in> set (events (getRealtimeUsage p now resolved fetch s))
            \<and> returned (getRealtimeUsage p now resolved fetch s) = fetch t)"
  by (rule getRealtimeUsage_cases
        [where p = p and now = now and s = s and resolved = resolved and fetch = fetch])
     (use assms in \<open>auto simp: returned_def events_def\<close>)

lemma getRealtimeUsage_absent_retains:
  assumes "\<not> cache_fresh p now s"
    and "returned (getRealtimeUsage p now resolved fetch s) = None"
  shows "cachedUsage (cache_after (getRealtimeUsage p now resolved fetch s)) = cachedUsage s
     \<and> previousUsage (cache_after (getRealtimeUsage p now resolved fetch s)) = previousUsage s
     \<and> cacheTimestamp (cache_after (getRealtimeUsage p now resolved fetch s)) = cacheTimestamp s"
  by (rule getRealtimeUsage_cases
        [where p = p and now = now and s = s and resolved = resolved and fetch = fetch])
     (use assms in \<open>auto simp: returned_def cache_after_def\<close>)

lemma getRealtimeUsage_endpoint_down:
  assumes "\<not> cache_fresh p now s" and "\<forall>t. fetch t = None"
  shows "returned (getRealtimeUsage p now resolved fetch s) = None"
  by (rule getRealtimeUsage_cases
        [where p = p and now = now and s = s and resolved = resolved and fetch = fetch])
     (use assms in \<open>auto simp: returned_def\<close>)

lemma still_stale:
  assumes "p * 60 * 1000 \<le> real_of_int (now - ts)" and "p' \<le> p" and "now \<le> now'"
  shows "p' * 60 * 1000 \<le> real_of_int (now' - ts)"
proof -
  have "p' * 60 * 1000 \<le> p * 60 * 1000" using assms(2) by simp
  moreover have "real_of_int (now - ts) \<le> real_of_int (now' - ts)" using assms(3) by simp
  ultimately show ?thesis using assms(1) by linarith
qed

lemma serve_while_endpoint_down:
  assumes "cachedUsage s = Some u"
    and "p * 60 * 1000 \<le> real_of_int (now - cacheTimestamp s)"
    and "\<forall>(p', now', resolved', fetch') \<in> set calls.
           p' \<le> p \<and> now \<le> now' \<and> (\<forall>t. fetch' t = None)"
  shows "fst (serve s calls) = replicate (length calls) None
     \<and> cachedUsage (snd (serve s calls)) = Some u
     \<and> previousUsage (snd (serve s calls)) = previousUsage s
     \<and> cacheTimestamp (snd (serve s calls)) = cacheTimestamp s"
  using assms
proof (induction calls arbitrary: s)
  case Nil
  then show ?case by simp
next
  case (Cons c cs)
  obtain p' now' resolved' fetch' where c: "c = (p', now', resolved', fetch')"
    by (cases c) auto
  let ?r = "getRealtimeUsage p' now' resolved' fetch' s"
  from Cons.prems(3) c have le: "p' \<le> p" "now \<le> now'" and down: "\<forall>t. fetch' t = None"
    by auto
  have "p' * 60 * 1000 \<le> real_of_int (now' - cacheTimestamp s)"
    using Cons.prems(2) le by (rule still_stale)
  then have nf: "\<not> cache_fresh p' now' s"
    by (simp add: cache_fresh_iff)
  have none: "returned ?r = None"
    using nf down by (rule getRealtimeUsage_endpoint_down)
  from getRealtimeUsage_absent_retains [OF nf none]
  have keep: "cachedUsage (cache_after ?r) = cachedUsage s"
    "previousUsage (cache_after ?r) = previousUsage s"
    "cacheTimestamp (cache_after ?r) = cacheTimestamp s"
    by simp_all
  have rest: "\<forall>(p', now', resolved', fetch') \<in> set cs.
           p' \<le> p \<and> now \<le> now' \<and> (\<forall>t. fetch' t = None)"
    using Cons.prems(3) by simp
  have ih: "fst (serve (cache_after ?r) cs) = replicate (length cs) None
     \<and> cachedUsage (snd (serve (cache_after ?r) cs)) = Some u
     \<and> previousUsage (snd (serve (cache_after ?r) cs)) = previousUsage (cache_after ?r)
     \<and> cacheTimestamp (snd (serve (cache_after ?r) cs)) = cacheTimestamp (cache_after ?r)"
    using Cons.prems(1,2) rest by (intro Cons.IH) (simp_all add: keep)
  have "serve s (c # cs)
      = (returned ?r # fst (serve (cache_after ?r) cs), snd (serve (cache_after ?r) cs))"
    by (simp add: c returned_def cache_after_def split: prod.splits)
  then show ?case
    using ih none keep by simp
qed

lemma fetch_succeeded_with_fresh_token:
  assumes "\<not> cache_fresh p now s" and "resolved = Some t" and "t \<noteq> []"
    and "\<forall>t. fetch t \<noteq> None"
  shows "fetch_succeeded p now resolved fetch s"
proof (cases "no_token (cachedToken s)")
  case True
  then have "token_in_use resolved s = Some t" using assms(2) by (simp add: token_in_use_def)
  then show ?thesis using assms by (auto simp: fetch_succeeded_iff)
next
  case False
  then obtain t' where "cachedToken s = Some t'" "t' \<noteq> []"
    by (cases "cachedToken s") auto
  then have "token_in_use resolved s = Some t'" by (simp add: token_in_use_def)
  then show ?thesis using assms \<open>t' \<noteq> []\<close> by (auto simp: fetch_succeeded_iff)
qed

text \<open>
  Claim C10. Let a snapshot be cached whose age has reached the poll interval. The call
  does not serve it: what it returns is nothing, or the answer of the fetch it makes.
  When it returns nothing, the snapshot stays cached, with the previous snapshot and
  the timestamp. However many calls follow while the endpoint fails (none earlier,
  none with a longer poll interval), each returns nothing and the snapshot is still
  cached; the first call whose fetch then succeeds returns the fresh snapshot and
  makes the stale one the previous snapshot, which \<^verbatim>\<open>getUsageTrend\<close> compares the
  fresh one with.
\<close>

theorem stale_snapshot_never_served:
  assumes "cachedUsage s = Some u"
    and "p * 60 * 1000 \<le> real_of_int (now - cacheTimestamp s)"
  shows "(returned (getRealtimeUsage p now resolved fetch s) = None
          \<or> (\<exists>t. token_in_use resolved s = Some t
                \<and> FetchUsage t \<in> set (events (getRealtimeUsage p now resolved fetch s))
                \<and> returned (getRealtimeUsage p now resolved fetch s) = fetch t))
     \<and> (returned (getRealtimeUsage p now resolved fetch s) = None \<longrightarrow>
          cachedUsage (cache_after (getRealtimeUsage p now resolved fetch s)) = Some u
          \<and> previousUsage (cache_after (getRealtimeUsage p now resolved fetch s))
              = previousUsage s
          \<and> cacheTimestamp (cache_after (getRealtimeUsage p now resolved fetch s))
              = cacheTimestamp s)
     \<and> ((\<forall>(p', now', resolved', fetch') \<in> set calls.
            p' \<le> p \<and> now \<le> now' \<and> (\<forall>t. fetch' t = None)) \<longrightarrow>
          fst (serve s calls) = replicate (length calls) None
          \<and> cachedUsage (snd (serve s calls)) = Some u
          \<and> previousUsage (snd (serve s calls)) = previousUsage s
          \<and> cacheTimestamp (snd (serve s calls)) = cacheTimestamp s
          \<and> (\<forall>p' now' resolved' fetch'.
                fetch_succeeded p' now' resolved' fetch' (snd (serve s calls)) \<longrightarrow>
                (\<exists>fresh.
                   returned (getRealtimeUsage p' now' resolved' fetch' (snd (serve s calls)))
                     = Some fresh
                   \<and> cachedUsage (cache_after (getRealtimeUsage p' now' resolved' fetch'
                                                 (snd (serve s calls)))) = Some fresh
                   \<and> previousUsage (cache_after (getRealtimeUsage p' now' resolved' fetch'
                                                   (snd (serve s calls)))) = Some u
                   \<and> (\<forall>(window, trend) \<in> set trend_dimensions.
                         trend (getUsageTrend (cache_after
                                  (getRealtimeUsage p' now' resolved' fetch'
                                     (snd (serve s calls)))))
                           = compareTrend (window fresh) (window u)))))"
proof (intro conjI impI)
  have nf: "\<not> cache_fresh p now s"
    using assms(2) by (simp add: cache_fresh_iff)
  show "returned (getRealtimeUsage p now resolved fetch s) = None
          \<or> (\<exists>t. token_in_use resolved s = Some t
                \<and> FetchUsage t \<in> set (events (getRealtimeUsage p now resolved fetch s))
                \<and> returned (getRealtimeUsage p now resolved fetch s) = fetch t)"
    using nf by (rule getRealtimeUsage_miss_returned)
  {
    assume none: "returned (getRealtimeUsage p now resolved fetch s) = None"
    from getRealtimeUsage_absent_retains [OF nf none] assms(1)
    show "cachedUsage (cache_after (getRealtimeUsage p now resolved fetch s)) = Some u"
      and "previousUsage (cache_after (getRealtimeUsage p now resolved fetch s))
              = previousUsage s"
      and "cacheTimestamp (cache_after (getRealtimeUsage p now resolved fetch s))
              = cacheTimestamp s"
      by simp_all
  }
  assume calls: "\<forall>(p', now', resolved', fetch') \<in> set calls.
            p' \<le> p \<and> now \<le> now' \<and> (\<forall>t. fetch' t = None)"
  note sv = serve_while_endpoint_down [OF assms calls]
  from sv show "fst (serve s calls) = replicate (length calls) None" by simp
  from sv show cu: "cachedUsage (snd (serve s calls)) = Some u" by simp
  from sv show "previousUsage (snd (serve s calls)) = previousUsage s" by simp
  from sv show "cacheTimestamp (snd (serve s calls)) = cacheTimestamp s" by simp
  show "\<forall>p' now' resolved' fetch'.
                fetch_succeeded p' now' resolved' fetch' (snd (serve s calls)) \<longrightarrow>
                (\<exists>fresh.
                   returned (getRealtimeUsage p' now' resolved' fetch' (snd (serve s calls)))
                     = Some fresh
                   \<and> cachedUsage (cache_after (getRealtimeUsage p' now' resolved' fetch'
                                                 (snd (serve s calls)))) = Some fresh
                   \<and> previousUsage (cache_after (getRealtimeUsage p' now' resolved' fetch'
                                                   (snd (serve s calls)))) = Some u
                   \<and> (\<forall>(window, trend) \<in> set trend_dimensions.
                         trend (getUsageTrend (cache_after
                                  (getRealtimeUsage p' now' resolved' fetch'
                                     (snd (serve s calls)))))
                           = compareTrend (window fresh) (window u)))"
  proof (intro allI impI)
    fix p' now' resolved' fetch'
    let ?s = "snd (serve s calls)"
    let ?r = "getRealtimeUsage p' now' resolved' fetch' ?s"
    assume "fetch_succeeded p' now' resolved' fetch' ?s"
    from getRealtimeUsage_fetched [OF this] obtain t fresh where
      eq: "?r = (Some fresh,
            (if no_token (cachedToken ?s) then [ResolveToken] else []) @ [FetchUsage t],
            ?s\<lparr> cachedToken := Some t, previousUsage := cachedUsage ?s,
                cachedUsage := Some fresh, cacheTimestamp := now' \<rparr>)"
      by blast
    have a: "returned ?r = Some fresh" "cachedUsage (cache_after ?r) = Some fresh"
      "previousUsage (cache_after ?r) = Some u"
      by (simp_all add: eq returned_def cache_after_def cu)
    have "\<forall>(window, trend) \<in> set trend_dimensions.
            trend (getUsageTrend (cache_after ?r)) = compareTrend (window fresh) (window u)"
      using a(2,3) by (auto simp: getUsageTrend_both)
    with a show "\<exists>fresh. returned ?r = Some fresh
        \<and> cachedUsage (cache_after ?r) = Some fresh
        \<and> previousUsage (cache_after ?r) = Some u
        \<and> (\<forall>(window, trend) \<in> set trend_dimensions.
              trend (getUsageTrend (cache_after ?r)) = compareTrend (window fresh) (window u))"
      by blast
  qed
qed

theorem stale_snapshot_never_served_witness:
  "returned (getRealtimeUsage 15 901000 None fetch_fails stale_example) = None
   \<and> cachedUsage (cache_after (getRealtimeUsage 15 901000 None fetch_fails stale_example))
       = Some (usage_at 40)
   \<and> fst (serve stale_example failing_calls_example) = [None, None, None]
   \<and> cachedUsage (snd (serve stale_example failing_calls_example)) = Some (usage_at 40)
   \<and> returned (getRealtimeUsage 15 6000000 (Some ''sk-ant-oat01-new'') (fetch_ok 50)
                 (snd (serve stale_example failing_calls_example))) = Some (usage_at 50)
   \<and> previousUsage (cache_after (getRealtimeUsage 15 6000000 (Some ''sk-ant-oat01-new'')
        (fetch_ok 50) (snd (serve stale_example failing_calls_example)))) = Some (usage_at 40)
   \<and> fiveHourTrend (getUsageTrend (cache_after (getRealtimeUsage 15 6000000
        (Some ''sk-ant-oat01-new'') (fetch_ok 50)
        (snd (serve stale_example failing_calls_example))))) = Some Up"
proof -
  let ?s = "snd (serve stale_example failing_calls_example)"
  let ?r = "getRealtimeUsage 15 6000000 (Some ''sk-ant-oat01-new'') (fetch_ok 50) ?s"
  have h1: "cachedUsage stale_example = Some (usage_at 40)"
    by (simp add: stale_example_def)
  have h2: "15 * 60 * 1000 \<le> real_of_int (901000 - cacheTimestamp stale_example)"
    by (simp add: stale_example_def)
  have h3: "\<forall>(p', now', resolved', fetch') \<in> set failing_calls_example.
            p' \<le> 15 \<and> 901000 \<le> now' \<and> (\<forall>t. fetch' t = None)"
    by (simp add: failing_calls_example_def fetch_fails_def)
  note t = stale_snapshot_never_served
    [where s = stale_example and u = "usage_at 40" and p = 15 and now = 901000
       and resolved = None and fetch = fetch_fails and calls = failing_calls_example,
     OF h1 h2]
  have tok: "token_in_use None stale_example = Some ''sk-ant-oat01-expired''"
    by (simp add: token_in_use_def stale_example_def)
  from t tok have none: "returned (getRealtimeUsage 15 901000 None fetch_fails stale_example) = None"
    by (auto simp: fetch_fails_def)
  with t have kept:
    "cachedUsage (cache_after (getRealtimeUsage 15 901000 None fetch_fails stale_example))
       = Some (usage_at 40)"
    by blast
  from t h3 have sv: "fst (serve stale_example failing_calls_example)
        = replicate (length failing_calls_example) None"
    "cachedUsage ?s = Some (usage_at 40)"
    "cacheTimestamp ?s = cacheTimestamp stale_example"
    by blast+
  have "cacheTimestamp stale_example = 1000"
    by (simp add: stale_example_def)
  with sv(3) have ts: "cacheTimestamp ?s = 1000" by simp
  have nf: "\<not> cache_fresh 15 6000000 ?s"
    by (simp add: cache_fresh_iff ts)
  have ok: "fetch_succeeded 15 6000000 (Some ''sk-ant-oat01-new'') (fetch_ok 50) ?s"
    using nf by (rule fetch_succeeded_with_fresh_token [where t = "''sk-ant-oat01-new''"])
      (simp_all add: fetch_ok_def)
  from t h3 ok obtain fresh where fr: "returned ?r = Some fresh"
    "cachedUsage (cache_after ?r) = Some fresh"
    "previousUsage (cache_after ?r) = Some (usage_at 40)"
    "\<forall>(window, trend) \<in> set trend_dimensions.
       trend (getUsageTrend (cache_after ?r)) = compareTrend (window fresh) (window (usage_at 40))"
    by blast
  from getRealtimeUsage_miss_returned [OF nf, of "Some ''sk-ant-oat01-new''" "fetch_ok 50"] fr(1)
  have fresh: "fresh = usage_at 50"
    by (auto simp: fetch_ok_def)
  from fr(4) have "fiveHourTrend (getUsageTrend (cache_after ?r)) = Some Up"
    by (simp add: trend_dimensions_def fresh usage_at_def window_of_def)
  with none kept sv fr(1,3) fresh show ?thesis
    by (simp add: failing_calls_example_def)
qed

section \<open>The rounding of binary64\<close>

text \<open>
  The exponent brackets its argument, and the rounding is within half a unit in the
  last place: a relative error of at most \<open>2\<close> to the power \<open>-53\<close>.
\<close>

lemma exponent_of_bounds:
  assumes "0 < y"
  shows "2 powi exponent_of y \<le> y" and "y < 2 powi (exponent_of y + 1)"
proof -
  have "2 powi exponent_of y \<le> y \<and> y < 2 powi (exponent_of y + 1)"
  proof (cases "1 \<le> y")
    case True
    let ?n = "\<lfloor>y\<rfloor>"
    have n: "0 < ?n" using True by simp
    from bitlen_bounds [OF n]
    have lo: "2 ^ nat (bitlen ?n - 1) \<le> ?n" and hi: "?n < 2 ^ nat (bitlen ?n)" by simp_all
    have b: "1 \<le> bitlen ?n"
      using n by (simp add: bitlen_alt_def)
    have e: "exponent_of y = bitlen ?n - 1" using True by (simp add: exponent_of_def)
    have fl: "real_of_int ?n \<le> y" "y < real_of_int ?n + 1"
      by linarith+
    have "real_of_int (2 ^ nat (bitlen ?n - 1)) \<le> real_of_int ?n"
      using lo by (simp only: of_int_le_iff)
    then have "(2::real) ^ nat (bitlen ?n - 1) \<le> real_of_int ?n"
      by simp
    with fl have "(2::real) ^ nat (bitlen ?n - 1) \<le> y"
      by linarith
    moreover have "?n + 1 \<le> 2 ^ nat (bitlen ?n)" using hi by simp
    then have "real_of_int (?n + 1) \<le> real_of_int (2 ^ nat (bitlen ?n))"
      by (simp only: of_int_le_iff)
    then have "real_of_int ?n + 1 \<le> (2::real) ^ nat (bitlen ?n)"
      by simp
    with fl have "y < (2::real) ^ nat (bitlen ?n)"
      by linarith
    ultimately show ?thesis
      using b by (simp add: e power_int_def)
  next
    case False
    let ?t = "1 / y"
    let ?m = "\<lceil>?t\<rceil> - 1"
    let ?k = "bitlen ?m"
    have t: "1 < ?t" using False assms by simp
    have ce: "?t \<le> real_of_int \<lceil>?t\<rceil>" "real_of_int \<lceil>?t\<rceil> < ?t + 1"
      by linarith+
    from t ce have "1 < real_of_int \<lceil>?t\<rceil>" by linarith
    then have "1 < \<lceil>?t\<rceil>" by (simp only: of_int_less_iff [symmetric] of_int_1)
    then have m: "0 < ?m" by simp
    from bitlen_bounds [OF m]
    have lo: "2 ^ nat (?k - 1) \<le> ?m" and hi: "?m < 2 ^ nat ?k" by simp_all
    have k: "1 \<le> ?k"
      using m by (simp add: bitlen_alt_def)
    have e: "exponent_of y = - ?k" using False by (simp add: exponent_of_def)
    have "?m + 1 \<le> 2 ^ nat ?k" using hi by simp
    then have "real_of_int (?m + 1) \<le> real_of_int (2 ^ nat ?k)"
      by (simp only: of_int_le_iff)
    then have "real_of_int \<lceil>?t\<rceil> \<le> 2 ^ nat ?k"
      by simp
    with ce have "?t \<le> 2 ^ nat ?k"
      by linarith
    then have "1 \<le> 2 ^ nat ?k * y"
      using assms by (simp add: field_simps)
    then have a: "1 / 2 ^ nat ?k \<le> y"
      by (simp add: field_simps)
    have "real_of_int (2 ^ nat (?k - 1)) \<le> real_of_int ?m"
      using lo by (simp only: of_int_le_iff)
    then have "2 ^ nat (?k - 1) \<le> real_of_int \<lceil>?t\<rceil> - 1"
      by simp
    with ce have "2 ^ nat (?k - 1) < ?t" by linarith
    then have "2 ^ nat (?k - 1) * y < 1"
      using assms by (simp add: field_simps)
    then have b: "y < 1 / 2 ^ nat (?k - 1)"
      by (simp add: field_simps)
    have p1: "(2::real) powi (- ?k) = 1 / 2 ^ nat ?k"
      using k by (simp add: power_int_def field_simps)
    have p2: "(2::real) powi (1 - ?k) = 1 / 2 ^ nat (?k - 1)"
    proof (cases "?k = 1")
      case True
      then show ?thesis by simp
    next
      case False
      then have "1 - ?k < 0" using k by simp
      moreover have "nat (- (1 - ?k)) = nat (?k - 1)" by simp
      ultimately show ?thesis by (simp add: power_int_def field_simps)
    qed
    show ?thesis using a b by (simp add: e p1 p2)
  qed
  then show "2 powi exponent_of y \<le> y" and "y < 2 powi (exponent_of y + 1)" by simp_all
qed

lemma round_ties_even_error:
  "\<bar>real_of_int (round_ties_even m) - m\<bar> \<le> 1 / 2"
  unfolding round_ties_even_def Let_def by (auto simp: abs_le_iff)

lemma binary64_error:
  "\<bar>binary64 x - x\<bar> \<le> \<bar>x\<bar> / 2 ^ 53"
proof (cases "x = 0")
  case True
  then show ?thesis by (simp add: binary64_def)
next
  case False
  define e where "e = exponent_of \<bar>x\<bar>"
  define ulp :: real where "ulp = 2 powi (e - 52)"
  have pos: "0 < ulp" by (simp add: ulp_def)
  have fl: "binary64 x = real_of_int (round_ties_even (x / ulp)) * ulp"
    using False by (simp add: binary64_def ulp_def e_def Let_def)
  have "\<bar>real_of_int (round_ties_even (x / ulp)) - x / ulp\<bar> \<le> 1 / 2"
    by (rule round_ties_even_error)
  then have "\<bar>real_of_int (round_ties_even (x / ulp)) - x / ulp\<bar> * ulp \<le> 1 / 2 * ulp"
    using pos by (intro mult_right_mono) simp_all
  moreover have "\<bar>real_of_int (round_ties_even (x / ulp)) - x / ulp\<bar> * ulp
      = \<bar>binary64 x - x\<bar>"
  proof -
    have "(real_of_int (round_ties_even (x / ulp)) - x / ulp) * ulp = binary64 x - x"
      using pos by (simp add: fl left_diff_distrib)
    then have "\<bar>binary64 x - x\<bar>
        = \<bar>real_of_int (round_ties_even (x / ulp)) - x / ulp\<bar> * \<bar>ulp\<bar>"
      by (simp only: abs_mult [symmetric])
    then show ?thesis using pos by simp
  qed
  ultimately have err: "\<bar>binary64 x - x\<bar> \<le> ulp / 2" by simp
  have "2 powi e \<le> \<bar>x\<bar>"
    unfolding e_def using False by (intro exponent_of_bounds) simp
  moreover have "ulp = 2 powi e / 2 ^ 52"
    by (simp add: ulp_def power_int_diff)
  ultimately have "ulp / 2 \<le> \<bar>x\<bar> / 2 ^ 53"
    by (simp add: field_simps)
  with err show ?thesis by linarith
qed

section \<open>Week progress in fallback mode\<close>

lemma Math_round_clamped:
  "0 \<le> Math_round (max 0 (min 100 x)) \<and> Math_round (max 0 (min 100 x)) \<le> 100"
proof -
  let ?y = "max 0 (min 100 x)"
  have "0 \<le> ?y" "?y \<le> 100" by simp_all
  then have "0 \<le> \<lfloor>?y + 1 / 2\<rfloor>" "\<lfloor>?y + 1 / 2\<rfloor> \<le> 100"
    by linarith+
  then show ?thesis by (simp add: Math_round_def)
qed

lemma calculateWeekProgress_range:
  "0 \<le> calculateWeekProgress dayOfWeek hours minutes resetDay resetHour resetMinute
   \<and> calculateWeekProgress dayOfWeek hours minutes resetDay resetHour resetMinute \<le> 100"
  unfolding calculateWeekProgress_def Let_def by (rule Math_round_clamped)

lemma mod_below_zero:
  fixes a m :: int
  assumes "- m \<le> a" and "a < 0"
  shows "a mod m = a + m"
proof -
  have 1: "(a + m) mod m = a + m"
    by (rule mod_pos_pos_trivial) (use assms in simp_all)
  have 2: "(a + m) mod m = a mod m"
    by (rule mod_add_self2)
  show ?thesis unfolding 2 [symmetric] by (rule 1)
qed

lemma js_rem_days:
  assumes "- 6 \<le> d" and "d \<le> 6"
  shows "js_rem (d + 7) 7 = (if d < 0 then d + 7 else d)"
proof (cases "d < 0")
  case True
  then have "d mod 7 = d + 7" using assms by (intro mod_below_zero) simp_all
  then show ?thesis using True assms by (simp add: js_rem_def)
next
  case False
  then have "d mod 7 = d" using assms by (simp add: mod_pos_pos_trivial)
  then show ?thesis using False by (simp add: js_rem_def)
qed

text \<open>
  The minutes into the period as the function counts them, from the difference \<open>d\<close>
  of the days and the difference \<open>x\<close> of the minutes of the day.
\<close>

lemma minutes_into_week_core:
  fixes d x :: int
  assumes "- 6 \<le> d" and "d \<le> 6" and "- 1439 \<le> x" and "x \<le> 1439"
  shows "(if js_rem (d + 7) 7 = 0 then (if x < 0 then 7 else js_rem (d + 7) 7)
          else js_rem (d + 7) 7) * 1440 + x
         = (d * 1440 + x) mod 10080"
proof -
  have r: "js_rem (d + 7) 7 = (if d < 0 then d + 7 else d)"
    using assms(1,2) by (rule js_rem_days)
  consider (same_before) "d = 0" "x < 0" | (same_after) "d = 0" "0 \<le> x"
    | (later) "0 < d" | (earlier) "d < 0"
    by linarith
  then show ?thesis
  proof cases
    case same_before
    have "x mod 10080 = x + 10080"
      using assms same_before by (intro mod_below_zero) simp_all
    then show ?thesis using same_before r by simp
  next
    case same_after
    then have "x mod 10080 = x"
      using assms by (simp add: mod_pos_pos_trivial)
    then show ?thesis using same_after r by simp
  next
    case later
    then have "0 \<le> d * 1440 + x" "d * 1440 + x < 10080"
      using assms by linarith+
    then have "(d * 1440 + x) mod 10080 = d * 1440 + x"
      by (simp add: mod_pos_pos_trivial)
    then show ?thesis using later r by simp
  next
    case earlier
    then have "- 10080 \<le> d * 1440 + x" "d * 1440 + x < 0"
      using assms by linarith+
    then have "(d * 1440 + x) mod 10080 = (d * 1440 + x) + 10080"
      by (rule mod_below_zero)
    moreover have "d + 7 \<noteq> 0" using assms by linarith
    ultimately show ?thesis using earlier r by (simp add: algebra_simps)
  qed
qed

lemma minutes_since_schedule_point_bounds:
  "0 \<le> minutes_since_schedule_point dayOfWeek hours minutes targetDay targetHour targetMinute
   \<and> minutes_since_schedule_point dayOfWeek hours minutes targetDay targetHour targetMinute
       < 10080"
  by (simp add: minutes_since_schedule_point_def)

lemma same_day_before_reset:
  assumes "valid_time dayOfWeek hours minutes"
    and "valid_time targetDay targetHour targetMinute"
    and "dayOfWeek = targetDay"
    and "hours * 60 + minutes < targetHour * 60 + targetMinute"
  shows "minutes_since_schedule_point dayOfWeek hours minutes targetDay targetHour targetMinute
     = 7 * 24 * 60 - ((targetHour * 60 + targetMinute) - (hours * 60 + minutes))"
proof -
  define x where "x = (hours * 60 + minutes) - (targetHour * 60 + targetMinute)"
  have "- 10080 \<le> x" "x < 0"
    using assms by (auto simp: valid_time_def x_def)
  then have "x mod 10080 = x + 10080" by (rule mod_below_zero)
  moreover have "minutes_since_schedule_point dayOfWeek hours minutes targetDay targetHour
      targetMinute = x mod 10080"
    using assms(3) by (simp add: minutes_since_schedule_point_def x_def algebra_simps)
  ultimately show ?thesis by (simp add: x_def)
qed

lemma binary64_error_bound:
  assumes "\<bar>x\<bar> \<le> c"
  shows "\<bar>binary64 x - x\<bar> \<le> c * (1 / 2 ^ 53)"
proof -
  have "\<bar>x\<bar> / 2 ^ 53 \<le> c / 2 ^ 53"
    using assms by (intro divide_right_mono) simp_all
  with binary64_error [of x] show ?thesis by simp
qed

text \<open>
  The four rounded operations of the function keep the percentage within \<open>600 / 2 ^ 53\<close>
  of the exact one. \<open>i\<close> is the whole hours and \<open>m\<close> the minutes of the difference.
\<close>

lemma rounded_percentage_close:
  fixes i m :: int
  assumes "\<bar>m\<bar> \<le> 59" and "0 \<le> i * 60 + m" and "i * 60 + m < 10080"
  shows "\<bar>binary64 (binary64 (binary64 (real_of_int i + binary64 (real_of_int m / 60))
                          / (7 * 24)) * 100)
          - real_of_int (i * 60 + m) / 60 / (7 * 24) * 100\<bar> \<le> 600 * (1 / 2 ^ 53)"
proof -
  define u :: real where "u = 1 / 2 ^ 53"
  define a where "a = binary64 (real_of_int m / 60)"
  define h where "h = binary64 (real_of_int i + a)"
  define d where "d = binary64 (h / 168)"
  define p where "p = binary64 (d * 100)"
  define H where "H = real_of_int (i * 60 + m) / 60"
  have u: "0 < u" "u < 1 / 1000" by (simp_all add: u_def)
  have Hsplit: "H = real_of_int i + real_of_int m / 60"
    by (simp add: H_def field_simps)
  have "real_of_int 0 \<le> real_of_int (i * 60 + m)"
    "real_of_int (i * 60 + m) < real_of_int 10080"
    using assms(2,3) by (simp_all only: of_int_le_iff of_int_less_iff)
  then have Hb: "0 \<le> H" "H < 168"
    by (simp_all add: H_def)
  have "real_of_int \<bar>m\<bar> \<le> real_of_int 59"
    using assms(1) by (simp only: of_int_le_iff)
  then have "\<bar>real_of_int m / 60\<bar> \<le> 1" by simp
  then have "\<bar>a - real_of_int m / 60\<bar> \<le> 1 * u"
    unfolding a_def u_def by (rule binary64_error_bound)
  then have ea: "\<bar>a - real_of_int m / 60\<bar> \<le> u" by simp
  have "\<bar>real_of_int i + a\<bar> \<le> 169"
    using ea Hb Hsplit u by linarith
  then have "\<bar>h - (real_of_int i + a)\<bar> \<le> 169 * u"
    unfolding h_def u_def by (rule binary64_error_bound)
  with ea Hsplit have eh: "\<bar>h - H\<bar> \<le> 170 * u"
    by linarith
  have "\<bar>h / 168\<bar> \<le> 2"
    using eh Hb u by linarith
  then have e1: "\<bar>d - h / 168\<bar> \<le> 2 * u"
    unfolding d_def u_def by (rule binary64_error_bound)
  from eh u have e2: "\<bar>h / 168 - H / 168\<bar> \<le> 2 * u"
    by linarith
  from e1 e2 have ed: "\<bar>d - H / 168\<bar> \<le> 4 * u"
    by linarith
  have "\<bar>d * 100\<bar> \<le> 200"
    using ed Hb u by linarith
  then have e3: "\<bar>p - d * 100\<bar> \<le> 200 * u"
    unfolding p_def u_def by (rule binary64_error_bound)
  from ed have e4: "\<bar>d * 100 - H / 168 * 100\<bar> \<le> 400 * u"
    by linarith
  from e3 e4 have "\<bar>p - H / 168 * 100\<bar> \<le> 600 * u"
    by linarith
  then show ?thesis
    by (simp add: p_def d_def h_def a_def H_def u_def)
qed

text \<open>
  A percentage of a whole number of minutes of the week is a multiple of \<open>1 / 1008\<close>,
  so rounding a value that close to it gives one of the integers nearest to it.
\<close>

lemma Math_round_nearest_percent:
  fixes e :: int and p :: real
  assumes "0 \<le> e" and "e < 10080"
    and "\<bar>p - real_of_int e / 60 / (7 * 24) * 100\<bar> \<le> 600 * (1 / 2 ^ 53)"
  shows "\<bar>real_of_int (Math_round (max 0 (min 100 p))) - real_of_int e / 60 / (7 * 24) * 100\<bar>
          \<le> 1 / 2"
proof -
  define u :: real where "u = 600 * (1 / 2 ^ 53)"
  define q where "q = real_of_int e / 60 / (7 * 24) * 100"
  define c where "c = max 0 (min 100 p)"
  define n where "n = Math_round c"
  define k where "k = 10 * e - 1008 * n"
  have u: "0 < u" "1008 * u < 1" by (simp_all add: u_def)
  have "real_of_int 0 \<le> real_of_int e" "real_of_int e < real_of_int 10080"
    using assms(1,2) by (simp_all only: of_int_le_iff of_int_less_iff)
  then have qb: "0 \<le> q" "q < 100"
    by (simp_all add: q_def)
  have pq: "\<bar>p - q\<bar> \<le> u"
    using assms(3) by (simp only: q_def u_def)
  have cq: "\<bar>c - q\<bar> \<le> u"
    using pq qb unfolding c_def by linarith
  have fl: "real_of_int n \<le> c + 1 / 2" "c + 1 / 2 < real_of_int n + 1"
    unfolding n_def Math_round_def by linarith+
  have kq: "real_of_int k = 1008 * q - 1008 * real_of_int n"
    by (simp add: k_def q_def field_simps)
  have "real_of_int k < 505" "- 505 < real_of_int k"
    using cq fl u unfolding kq by linarith+
  then have "real_of_int k < real_of_int 505" "real_of_int (- 505) < real_of_int k"
    by simp_all
  then have "k < 505" "- 505 < k"
    by (simp_all only: of_int_less_iff)
  then have "- 504 \<le> k" "k \<le> 504" by simp_all
  then have "real_of_int (- 504) \<le> real_of_int k" "real_of_int k \<le> real_of_int 504"
    by (simp_all only: of_int_le_iff)
  then have "- 504 \<le> 1008 * q - 1008 * real_of_int n"
    "1008 * q - 1008 * real_of_int n \<le> 504"
    unfolding kq by simp_all
  then have "\<bar>real_of_int n - q\<bar> \<le> 1 / 2"
    by linarith
  then show ?thesis
    by (simp only: n_def c_def q_def)
qed


lemma calculateWeekProgress_nearest:
  assumes "valid_time dayOfWeek hours minutes"
    and "valid_time (nullish resetDay 1) (nullish resetHour 0) (nullish resetMinute 0)"
  shows "\<bar>real_of_int (calculateWeekProgress dayOfWeek hours minutes
                          resetDay resetHour resetMinute)
          - real_of_int (minutes_since_schedule_point dayOfWeek hours minutes
              (nullish resetDay 1) (nullish resetHour 0) (nullish resetMinute 0))
            / 60 / (7 * 24) * 100\<bar> \<le> 1 / 2"
proof -
  let ?td = "nullish resetDay 1" and ?th = "nullish resetHour 0" and ?tm = "nullish resetMinute 0"
  let ?e = "minutes_since_schedule_point dayOfWeek hours minutes ?td ?th ?tm"
  define d where "d = dayOfWeek - ?td"
  define x where "x = (hours * 60 + minutes) - (?th * 60 + ?tm)"
  define days where "days = (if js_rem (d + 7) 7 = 0 then (if x < 0 then 7 else js_rem (d + 7) 7)
          else js_rem (d + 7) 7)"
  define i where "i = days * 24 + hours - ?th"
  define m where "m = minutes - ?tm"
  have b: "- 6 \<le> d" "d \<le> 6" "- 1439 \<le> x" "x \<le> 1439"
    using assms by (auto simp: valid_time_def d_def x_def)
  have mb: "\<bar>m\<bar> \<le> 59"
    using assms by (auto simp: valid_time_def m_def)
  have e: "?e = (d * 1440 + x) mod 10080"
    by (simp add: minutes_since_schedule_point_def d_def x_def algebra_simps)
  have "days * 1440 + x = (d * 1440 + x) mod 10080"
    unfolding days_def using b by (rule minutes_into_week_core)
  moreover have "i * 60 + m = days * 1440 + x"
    by (simp add: i_def m_def x_def algebra_simps)
  ultimately have im: "i * 60 + m = ?e"
    using e by simp
  have eb: "0 \<le> ?e" "?e < 10080"
    by (simp_all add: minutes_since_schedule_point_def)
  have lt: "hours * 60 + minutes < ?th * 60 + ?tm \<longleftrightarrow> x < 0"
    by (simp add: x_def)
  have code: "calculateWeekProgress dayOfWeek hours minutes resetDay resetHour resetMinute
      = Math_round (max 0 (min 100
          (binary64 (binary64 (binary64 (real_of_int i + binary64 (real_of_int m / 60))
                                / (7 * 24)) * 100))))"
    unfolding calculateWeekProgress_def Let_def lt days_def d_def i_def m_def by simp
  have "\<bar>binary64 (binary64 (binary64 (real_of_int i + binary64 (real_of_int m / 60))
                          / (7 * 24)) * 100)
          - real_of_int (i * 60 + m) / 60 / (7 * 24) * 100\<bar> \<le> 600 * (1 / 2 ^ 53)"
    using mb eb unfolding im [symmetric] by (rule rounded_percentage_close)
  then have "\<bar>binary64 (binary64 (binary64 (real_of_int i + binary64 (real_of_int m / 60))
                          / (7 * 24)) * 100)
          - real_of_int ?e / 60 / (7 * 24) * 100\<bar> \<le> 600 * (1 / 2 ^ 53)"
    unfolding im .
  with eb show ?thesis
    unfolding code by (rule Math_round_nearest_percent)
qed

text \<open>
  Claim C7. For every day of the week, hour and minute and every configured reset day,
  hour and minute, the fallback week progress is an integer from 0 to 100. When the
  clock and the schedule are a day from 0 to 6, an hour from 0 to 23 and a minute from
  0 to 59, it is the time since the most recent schedule point, in hours, divided by
  \<open>7 * 24\<close>, as a percentage, rounded to a whole number: an integer at most one half
  away from that percentage (where the percentage is a half, binary64 decides which of
  its two neighbours). On the reset day before the reset time that elapsed time is
  seven days less the time left until the reset, so the progress is at least 86 and
  not 0.
\<close>

theorem calculateWeekProgress_fallback:
  "0 \<le> calculateWeekProgress dayOfWeek hours minutes resetDay resetHour resetMinute
   \<and> calculateWeekProgress dayOfWeek hours minutes resetDay resetHour resetMinute \<le> 100
   \<and> (valid_time dayOfWeek hours minutes
        \<and> valid_time (nullish resetDay 1) (nullish resetHour 0) (nullish resetMinute 0) \<longrightarrow>
        \<bar>real_of_int (calculateWeekProgress dayOfWeek hours minutes
                         resetDay resetHour resetMinute)
           - real_of_int (minutes_since_schedule_point dayOfWeek hours minutes
               (nullish resetDay 1) (nullish resetHour 0) (nullish resetMinute 0))
             / 60 / (7 * 24) * 100\<bar> \<le> 1 / 2
        \<and> (dayOfWeek = nullish resetDay 1
             \<and> hours * 60 + minutes < nullish resetHour 0 * 60 + nullish resetMinute 0 \<longrightarrow>
             minutes_since_schedule_point dayOfWeek hours minutes
                 (nullish resetDay 1) (nullish resetHour 0) (nullish resetMinute 0)
               = 7 * 24 * 60
                   - ((nullish resetHour 0 * 60 + nullish resetMinute 0) - (hours * 60 + minutes))
             \<and> 86 \<le> calculateWeekProgress dayOfWeek hours minutes
                        resetDay resetHour resetMinute))"
proof (intro conjI impI)
  let ?td = "nullish resetDay 1" and ?th = "nullish resetHour 0" and ?tm = "nullish resetMinute 0"
  let ?e = "minutes_since_schedule_point dayOfWeek hours minutes ?td ?th ?tm"
  let ?r = "calculateWeekProgress dayOfWeek hours minutes resetDay resetHour resetMinute"
  show "0 \<le> ?r" and "?r \<le> 100"
    using calculateWeekProgress_range by simp_all
  assume v: "valid_time dayOfWeek hours minutes \<and> valid_time ?td ?th ?tm"
  then have "valid_time dayOfWeek hours minutes" and "valid_time ?td ?th ?tm"
    by simp_all
  then show near: "\<bar>real_of_int ?r - real_of_int ?e / 60 / (7 * 24) * 100\<bar> \<le> 1 / 2"
    by (rule calculateWeekProgress_nearest)
  assume b: "dayOfWeek = ?td \<and> hours * 60 + minutes < ?th * 60 + ?tm"
  with v show m: "?e = 7 * 24 * 60 - ((?th * 60 + ?tm) - (hours * 60 + minutes))"
    by (simp add: same_day_before_reset)
  have "8641 \<le> ?e"
    using v b unfolding m by (auto simp: valid_time_def)
  then have "real_of_int 8641 \<le> real_of_int ?e"
    by (simp only: of_int_le_iff)
  then have "857 / 10 \<le> real_of_int ?e / 60 / (7 * 24) * 100"
    by simp
  with near have "85 < real_of_int ?r"
    by linarith
  then have "real_of_int 85 < real_of_int ?r" by simp
  then have "85 < ?r" by (simp only: of_int_less_iff)
  then show "86 \<le> ?r" by simp
qed

theorem calculateWeekProgress_fallback_witness:
  "calculateWeekProgress 2 13 48 Undefined Undefined Undefined = 22
   \<and> \<bar>real_of_int (calculateWeekProgress 2 13 48 Undefined Undefined Undefined) - 225 / 10\<bar>
       \<le> 1 / 2
   \<and> calculateWeekProgress 1 11 0 (Val 1) (Val 12) (Val 30) = 99
   \<and> 86 \<le> calculateWeekProgress 1 11 0 (Val 1) (Val 12) (Val 30)
   \<and> calculateWeekProgress 1 11 0 (Val 1) (Val 12) (Val 30) \<le> 100"
proof -
  have v1: "valid_time 2 13 48
      \<and> valid_time (nullish Undefined 1) (nullish Undefined 0) (nullish Undefined 0)"
    by (simp add: valid_time_def)
  have v2: "valid_time 1 11 0
      \<and> valid_time (nullish (Val 1) 1) (nullish (Val 12) 0) (nullish (Val 30) 0)"
    by (simp add: valid_time_def)
  have b2: "(1::int) = nullish (Val 1) 1
      \<and> (11::int) * 60 + 0 < nullish (Val 12) 0 * 60 + nullish (Val 30) 0"
    by simp
  have e1: "calculateWeekProgress 2 13 48 Undefined Undefined Undefined = 22"
    by code_simp
  have e2: "calculateWeekProgress 1 11 0 (Val 1) (Val 12) (Val 30) = 99"
    by code_simp
  note a = calculateWeekProgress_fallback
    [where dayOfWeek = 2 and hours = 13 and minutes = 48 and resetDay = Undefined
       and resetHour = Undefined and resetMinute = Undefined]
  note b = calculateWeekProgress_fallback
    [where dayOfWeek = 1 and hours = 11 and minutes = 0 and resetDay = "Val 1"
       and resetHour = "Val 12" and resetMinute = "Val 30"]
  from a v1 have
    "\<bar>real_of_int (calculateWeekProgress 2 13 48 Undefined Undefined Undefined) - 225 / 10\<bar>
       \<le> 1 / 2"
    by (simp add: minutes_since_schedule_point_def)
  moreover from b v2 b2 have "86 \<le> calculateWeekProgress 1 11 0 (Val 1) (Val 12) (Val 30)"
    "calculateWeekProgress 1 11 0 (Val 1) (Val 12) (Val 30) \<le> 100"
    by blast+
  ultimately show ?thesis using e1 e2 by blast
qed

section \<open>Week progress from the reset time\<close>

text \<open>
  Up to the reset time the progress is the elapsed fraction of the seven days that end
  there, clamped and rounded. Past the reset time it is the elapsed fraction of the
  seven days that start there, rounded: from 0 to 100 within those seven days, more
  than 100 beyond them.
\<close>

lemma weekProgress_before_reset:
  assumes "now \<le> resetAtMs"
  shows "calculateWeekProgressFromResetTime now resetAtMs
     = Math_round (max 0 (min 100
         (real_of_int (now - (resetAtMs - 7 * 86400000)) / real_of_int (7 * 86400000) * 100)))"
    and "0 \<le> calculateWeekProgressFromResetTime now resetAtMs"
    and "calculateWeekProgressFromResetTime now resetAtMs \<le> 100"
proof -
  show eq: "calculateWeekProgressFromResetTime now resetAtMs
     = Math_round (max 0 (min 100
         (real_of_int (now - (resetAtMs - 7 * 86400000)) / real_of_int (7 * 86400000) * 100)))"
    using assms by (simp add: calculateWeekProgressFromResetTime_def setDate_plus_def Let_def)
  show "0 \<le> calculateWeekProgressFromResetTime now resetAtMs"
    and "calculateWeekProgressFromResetTime now resetAtMs \<le> 100"
    unfolding eq using Math_round_clamped by simp_all
qed

lemma weekProgress_after_reset:
  assumes "resetAtMs < now"
  shows "calculateWeekProgressFromResetTime now resetAtMs
     = Math_round (real_of_int (now - resetAtMs) / real_of_int (7 * 86400000) * 100)"
  using assms by (simp add: calculateWeekProgressFromResetTime_def setDate_plus_def Let_def)

lemma weekProgress_within_projected_period:
  assumes "resetAtMs < now" and "now \<le> resetAtMs + 7 * 86400000"
  shows "0 \<le> calculateWeekProgressFromResetTime now resetAtMs"
    and "calculateWeekProgressFromResetTime now resetAtMs \<le> 100"
proof -
  let ?q = "real_of_int (now - resetAtMs) / real_of_int (7 * 86400000) * 100"
  have "0 \<le> real_of_int (now - resetAtMs)" "real_of_int (now - resetAtMs) \<le> 7 * 86400000"
    using assms by simp_all
  then have "0 \<le> ?q" "?q \<le> 100"
    by simp_all
  then have "0 \<le> \<lfloor>?q + 1 / 2\<rfloor>" "\<lfloor>?q + 1 / 2\<rfloor> \<le> 100"
    by linarith+
  then show "0 \<le> calculateWeekProgressFromResetTime now resetAtMs"
    and "calculateWeekProgressFromResetTime now resetAtMs \<le> 100"
    unfolding weekProgress_after_reset [OF assms(1)] Math_round_def by simp_all
qed

lemma weekProgress_beyond_projected_period:
  assumes "resetAtMs + 7 * 86400000 + 3024000 \<le> now"
  shows "100 < calculateWeekProgressFromResetTime now resetAtMs"
proof -
  let ?q = "real_of_int (now - resetAtMs) / real_of_int (7 * 86400000) * 100"
  have "resetAtMs < now" using assms by simp
  note eq = weekProgress_after_reset [OF this]
  have "7 * 86400000 + 3024000 \<le> now - resetAtMs"
    using assms by simp
  then have "real_of_int (7 * 86400000 + 3024000) \<le> real_of_int (now - resetAtMs)"
    by (simp only: of_int_le_iff)
  then have "1005 / 10 \<le> ?q"
    by simp
  then have "101 \<le> \<lfloor>?q + 1 / 2\<rfloor>"
    by linarith
  then show ?thesis
    unfolding eq Math_round_def by simp
qed

text \<open>
  Claim C1. The claim bounds the remote-anchored week progress by 0 and 100 for every
  reset time and every clock reading. Two weeks after the reset time the function
  returns 200: the branch taken once the clock has passed the reset time rounds the
  elapsed fraction of the projected period without clamping it.
\<close>

theorem calculateWeekProgressFromResetTime_two_weeks_late:
  "calculateWeekProgressFromResetTime (14 * 86400000) 0 = 200"
  by (simp add: calculateWeekProgressFromResetTime_def setDate_plus_def Math_round_def)

section \<open>Time remaining\<close>

text \<open>
  Claim C8. The time remaining of the short window is the larger of 0 and the rounded
  number of minutes from the clock to the reset time. It is never negative; it is 0
  whenever the clock is at or past the reset time, and so for a reset time one second
  in the past; before the reset time it is the whole number within one half of the
  minutes left, a half going up.
\<close>

theorem timeRemaining_never_negative:
  "timeRemaining r now = max 0 (Math_round (real_of_int (r - now) / 60000))
   \<and> 0 \<le> timeRemaining r now
   \<and> (r \<le> now \<longrightarrow> timeRemaining r now = 0)
   \<and> (now \<le> r \<longrightarrow>
        real_of_int (r - now) / 60000 - 1 / 2 < real_of_int (timeRemaining r now)
        \<and> real_of_int (timeRemaining r now) \<le> real_of_int (r - now) / 60000 + 1 / 2)
   \<and> timeRemaining (now - 1000) now = 0"
proof (intro conjI impI)
  show eq: "timeRemaining r now = max 0 (Math_round (real_of_int (r - now) / 60000))"
    by (simp add: timeRemaining_def)
  show "0 \<le> timeRemaining r now" by (simp add: timeRemaining_def)
  show past: "timeRemaining r now = 0" if "r \<le> now"
  proof -
    have "real_of_int (r - now) / (1000 * 60) \<le> 0"
      using that by (simp add: divide_le_0_iff)
    then have "real_of_int (r - now) / (1000 * 60) + 1 / 2 < 1" by linarith
    then have "Math_round (real_of_int (r - now) / (1000 * 60)) \<le> 0"
      unfolding Math_round_def by linarith
    then show ?thesis by (simp add: timeRemaining_def)
  qed
  show "timeRemaining (now - 1000) now = 0"
    by (simp add: timeRemaining_def Math_round_def)
  assume "now \<le> r"
  then have x: "0 \<le> real_of_int (r - now) / 60000" by simp
  then have "0 \<le> \<lfloor>real_of_int (r - now) / 60000 + 1 / 2\<rfloor>" by linarith
  then have t: "timeRemaining r now = \<lfloor>real_of_int (r - now) / 60000 + 1 / 2\<rfloor>"
    unfolding eq Math_round_def by simp
  show "real_of_int (r - now) / 60000 - 1 / 2 < real_of_int (timeRemaining r now)"
    and "real_of_int (timeRemaining r now) \<le> real_of_int (r - now) / 60000 + 1 / 2"
    unfolding t by linarith+
qed

theorem timeRemaining_never_negative_witness:
  "timeRemaining 7200000 0 = 120
   \<and> timeRemaining 90000 0 = 2
   \<and> timeRemaining 1000 61000 = 0
   \<and> (1000::int) \<le> 61000
   \<and> (0::int) \<le> 7200000"
  using timeRemaining_never_negative [of 7200000 0] timeRemaining_never_negative [of 90000 0]
    timeRemaining_never_negative [of 1000 61000]
  by (simp add: Math_round_def)

section \<open>Sparklines\<close>

text \<open>
  For a width of at least 1 the function keeps the most recent \<open>width\<close> values that
  are not null and maps each to the glyph of its bucket, \<open>\<lfloor>clamp v / 100 * 7\<rfloor>\<close>, one
  of eight. With no value it gives the empty string.
\<close>

lemma non_null_filter:
  "non_null xs = map the (filter (\<lambda>x. x \<noteq> None) xs)"
  by (induction xs rule: non_null.induct) simp_all

lemma slice_from_most_recent:
  assumes "1 \<le> width"
  shows "slice_from xs (- width) = most_recent (nat width) xs"
proof -
  have "nat (max (int (length xs) - width) 0) = length xs - nat width"
    using assms by simp
  then show ?thesis
    using assms by (simp add: slice_from_def most_recent_def Let_def)
qed

lemma slice_from_zero:
  "slice_from xs 0 = xs"
  by (simp add: slice_from_def)

lemma sparkline_char_bucket:
  "\<exists>i. i = \<lfloor>max 0 (min 100 v) / 100 * 7\<rfloor> \<and> 0 \<le> i \<and> i \<le> 7
     \<and> sparkline_char v = [SPARKLINE_CHARS ! nat i]"
proof -
  let ?c = "max 0 (min 100 v)"
  have "0 \<le> ?c / 100 * 7" "?c / 100 * 7 \<le> 7" by simp_all
  then have "0 \<le> \<lfloor>?c / 100 * 7\<rfloor>" "\<lfloor>?c / 100 * 7\<rfloor> \<le> 7"
    by linarith+
  then show ?thesis
    by (simp add: sparkline_char_def Math_floor_def char_at_def SPARKLINE_CHARS_def Let_def)
qed

lemma getSparkline_positive_width:
  assumes "1 \<le> width"
  shows "getSparkline samples width
     = concat (map sparkline_char (most_recent (nat width) (non_null samples)))"
  using assms
  by (simp add: getSparkline_def slice_from_most_recent most_recent_def Let_def)

lemma getSparkline_no_values:
  assumes "non_null samples = []"
  shows "getSparkline samples width = []"
  using assms by (simp add: getSparkline_def)

lemma getSparkline_keeps_all_at_zero:
  "getSparkline samples 0 = concat (map sparkline_char (non_null samples))"
  by (simp add: getSparkline_def slice_from_zero Let_def)

lemma getSparkline_five_buckets:
  "getSparkline [Some 0, Some 25, Some 50, Some 75, Some 100] 5
     = [9601, 9602, 9604, 9606, 9608]"
  by (simp add: getSparkline_def slice_from_def sparkline_char_def Math_floor_def
      char_at_def SPARKLINE_CHARS_def)

lemma getSparkline_all_null:
  "getSparkline [] width = [] \<and> getSparkline [None, None] width = []"
  by (simp add: getSparkline_def)

text \<open>
  Claim C9. The claim keeps the most recent \<open>width\<close> entries for every width. At width
  0 the function keeps every entry: \<^verbatim>\<open>slice(-0)\<close> is \<^verbatim>\<open>slice(0)\<close>. Three samples at
  width 0 give three glyphs.
\<close>

theorem getSparkline_width_zero:
  "getSparkline [Some 10, Some 20, Some 30] 0 = [9601, 9602, 9603]"
  by (simp add: getSparkline_def slice_from_def sparkline_char_def Math_floor_def
      char_at_def SPARKLINE_CHARS_def)

end
